theory Spec2Isabelle
  imports Complex_Main "HOL-Library.AList"
begin

section \<open>Data model (types.ts)\<close>

text \<open>
  The interfaces of the application. An enum is a datatype together with the string
  each member stands for; an interface is a record. Counts are natural numbers (they
  start at zero and are only ever increased). Field \<open>id\<close> of a plant and of a question
  carry a suffix, because \<open>id\<close> is the identity function of HOL; the fields of
  \<open>QuizQuestion\<close> that share a name with a field of \<open>Plant\<close> or \<open>StudySession\<close>
  carry the suffix \<open>_q\<close>.

  An image reference is declared a string. The merged catalog takes it from a property
  read on a plain object, which also finds what the object inherits from
  \<open>Object.prototype\<close>; such a value (a function, or the prototype itself) is
  \<open>PrototypeProperty\<close> with the name of the property.
\<close>

datatype jsValue = StringValue string | PrototypeProperty string

datatype LightRequirement = FULL_SUN | PARTIAL_SHADE | SHADE

fun lightValue :: "LightRequirement \<Rightarrow> string" where
  "lightValue FULL_SUN = ''Sol pleno''"
| "lightValue PARTIAL_SHADE = ''Meia-sombra''"
| "lightValue SHADE = ''Sombra''"

record Plant =
  id_plant :: string
  commonName :: string
  scientificName :: string
  light :: LightRequirement
  category :: string
  trivia :: string
  imageUrl :: jsValue

datatype SessionType = CYCLE | QUIZ

fun sessionTypeValue :: "SessionType \<Rightarrow> string" where
  "sessionTypeValue CYCLE = ''CYCLE''"
| "sessionTypeValue QUIZ = ''QUIZ''"

record StudySession =
  date :: string
  type :: SessionType
  score :: "nat option"

record UserProgress =
  plantsStudiedCount :: nat
  lastStudyDate :: "string option"
  streakDays :: nat
  quizTotalQuestions :: nat
  quizCorrectAnswers :: nat
  history :: "StudySession list"

datatype QuestionType = SCIENTIFIC_TO_COMMON | COMMON_TO_LIGHT | PHOTO_TO_COMMON

record QuizQuestion =
  id_q :: nat
  type_q :: QuestionType
  questionText :: string
  imageUrl_q :: "jsValue option"
  options :: "string list"
  correctAnswer :: string

text \<open>
  Exceptions are values. \<open>SyntaxError\<close> is what \<open>JSON.parse\<close> throws, \<open>TypeError\<close>
  is a property read on \<open>undefined\<close> (and, in this typed model, a parsed value that is
  not of the shape of the interface it is cast to: TypeScript's cast is unchecked and
  the failure shows at the first use), \<open>DecodeError\<close> is the rejection of the image
  promise.
\<close>

datatype error = SyntaxError | TypeError | DecodeError

section \<open>JSON text\<close>

text \<open>
  \<open>localStorage\<close> holds strings; the application writes \<open>JSON.stringify\<close> of a record
  and reads it back with \<open>JSON.parse\<close>. Both are modelled on the text: numbers are
  integers in decimal notation, strings are sequences of code units below 256.
\<close>

datatype json = JNull | JBool bool | JNum int | JStr string
  | JArr "json list" | JObj "(string \<times> json) list"

subsection \<open>JSON.stringify (no indentation)\<close>

definition hexDigit :: "nat \<Rightarrow> char" where
  "hexDigit n = (if n < 10 then char_of (48 + n) else char_of (87 + n))"

definition escapeChar :: "char \<Rightarrow> string" where
  "escapeChar c =
     (if c = CHR 0x22 then [CHR 0x5C, CHR 0x22]
      else if c = CHR 0x5C then [CHR 0x5C, CHR 0x5C]
      else if c = CHR 0x08 then [CHR 0x5C, CHR ''b'']
      else if c = CHR 0x09 then [CHR 0x5C, CHR ''t'']
      else if c = CHR 0x0A then [CHR 0x5C, CHR ''n'']
      else if c = CHR 0x0C then [CHR 0x5C, CHR ''f'']
      else if c = CHR 0x0D then [CHR 0x5C, CHR ''r'']
      else if (of_char c :: nat) < 32
        then [CHR 0x5C, CHR ''u'', CHR ''0'', CHR ''0'',
              hexDigit (of_char c div 16), hexDigit (of_char c mod 16)]
      else [c])"

definition quoteJSONString :: "string \<Rightarrow> string" where
  "quoteJSONString s = CHR 0x22 # concat (map escapeChar s) @ [CHR 0x22]"

function showNat :: "nat \<Rightarrow> string" where
  "showNat n =
     (if n < 10 then [char_of (48 + n)]
      else showNat (n div 10) @ [char_of (48 + n mod 10)])"
  by pat_completeness auto
termination
  by (relation "measure id") auto

declare showNat.simps [simp del]

definition showInt :: "int \<Rightarrow> string" where
  "showInt i = (if i < 0 then CHR ''-'' # showNat (nat (- i)) else showNat (nat i))"

fun stringify :: "json \<Rightarrow> string"
and stringifyElems :: "json list \<Rightarrow> string"
and stringifyMembers :: "(string \<times> json) list \<Rightarrow> string" where
  "stringify JNull = ''null''"
| "stringify (JBool b) = (if b then ''true'' else ''false'')"
| "stringify (JNum i) = showInt i"
| "stringify (JStr s) = quoteJSONString s"
| "stringify (JArr xs) = CHR ''['' # stringifyElems xs @ '']''"
| "stringify (JObj ms) = CHR ''{'' # stringifyMembers ms @ ''}''"
| "stringifyElems [] = []"
| "stringifyElems [x] = stringify x"
| "stringifyElems (x # y # ys) = stringify x @ CHR '','' # stringifyElems (y # ys)"
| "stringifyMembers [] = []"
| "stringifyMembers [(k, v)] = quoteJSONString k @ CHR '':'' # stringify v"
| "stringifyMembers ((k, v) # m # ms) =
     quoteJSONString k @ CHR '':'' # stringify v @ CHR '','' # stringifyMembers (m # ms)"

subsection \<open>JSON.parse\<close>

text \<open>
  A recursive-descent parser of the JSON grammar: white space between tokens, the three
  literals, integers without leading zeros, strings with their escapes, arrays and
  objects. It returns the value read and the rest of the text. Its first argument bounds
  the number of nested calls; \<open>JSON_parse\<close> passes the length of the text, which is
  always enough (lemma \<open>need_le_length\<close>). \<open>None\<close> is the \<open>SyntaxError\<close>. Numbers with a
  fraction or an exponent, and escapes of code units above 255, are outside the model
  and are refused.
\<close>

definition isWs :: "char \<Rightarrow> bool" where
  "isWs c = (c = CHR 0x20 \<or> c = CHR 0x09 \<or> c = CHR 0x0A \<or> c = CHR 0x0D)"

definition skipWs :: "string \<Rightarrow> string" where
  "skipWs s = dropWhile isWs s"

definition isDigit :: "char \<Rightarrow> bool" where
  "isDigit c = (48 \<le> (of_char c :: nat) \<and> (of_char c :: nat) \<le> 57)"

definition hexVal :: "char \<Rightarrow> nat option" where
  "hexVal c = (let n = (of_char c :: nat) in
     if 48 \<le> n \<and> n \<le> 57 then Some (n - 48)
     else if 97 \<le> n \<and> n \<le> 102 then Some (n - 87)
     else if 65 \<le> n \<and> n \<le> 70 then Some (n - 55)
     else None)"

definition unescape :: "char \<Rightarrow> char option" where
  "unescape e =
     (if e = CHR 0x22 then Some (CHR 0x22)
      else if e = CHR 0x5C then Some (CHR 0x5C)
      else if e = CHR ''/'' then Some (CHR ''/'')
      else if e = CHR ''b'' then Some (CHR 0x08)
      else if e = CHR ''f'' then Some (CHR 0x0C)
      else if e = CHR ''n'' then Some (CHR 0x0A)
      else if e = CHR ''r'' then Some (CHR 0x0D)
      else if e = CHR ''t'' then Some (CHR 0x09)
      else None)"

definition hex4 :: "char \<Rightarrow> char \<Rightarrow> char \<Rightarrow> char \<Rightarrow> nat option" where
  "hex4 h1 h2 h3 h4 =
     (case (hexVal h1, hexVal h2, hexVal h3, hexVal h4) of
        (Some a, Some b, Some c, Some d) \<Rightarrow> Some (((a * 16 + b) * 16 + c) * 16 + d)
      | _ \<Rightarrow> None)"

definition consFst :: "'a \<Rightarrow> ('a list \<times> 'b) option \<Rightarrow> ('a list \<times> 'b) option" where
  "consFst x r = (case r of None \<Rightarrow> None | Some (xs, rest) \<Rightarrow> Some (x # xs, rest))"

text \<open>The characters of a string literal, after its opening quote.\<close>

fun parseChars :: "string \<Rightarrow> (string \<times> string) option" where
  "parseChars [] = None"
| "parseChars (c # cs) =
     (if c = CHR 0x22 then Some ([], cs)
      else if c = CHR 0x5C then
        (case cs of
           [] \<Rightarrow> None
         | e # r \<Rightarrow>
             if e = CHR ''u'' then
               (case r of
                  h1 # h2 # h3 # h4 # r' \<Rightarrow>
                    (case hex4 h1 h2 h3 h4 of
                       None \<Rightarrow> None
                     | Some n \<Rightarrow>
                         if n < 256 then consFst (char_of n) (parseChars r') else None)
                | _ \<Rightarrow> None)
             else
               (case unescape e of
                  None \<Rightarrow> None
                | Some ch \<Rightarrow> consFst ch (parseChars r)))
      else if (of_char c :: nat) < 32 then None
      else consFst c (parseChars cs))"

definition digitsVal :: "string \<Rightarrow> nat" where
  "digitsVal ds = foldl (\<lambda>a d. 10 * a + (of_char d - 48)) 0 ds"

definition parseNumber :: "string \<Rightarrow> (json \<times> string) option" where
  "parseNumber s =
     (let neg = (s \<noteq> [] \<and> hd s = CHR ''-'');
          s1 = (if neg then tl s else s);
          ds = takeWhile isDigit s1;
          rest = dropWhile isDigit s1
      in if ds = [] \<or> (1 < length ds \<and> hd ds = CHR ''0'') then None
         else if rest \<noteq> [] \<and>
                 (hd rest = CHR ''.'' \<or> hd rest = CHR ''e'' \<or> hd rest = CHR ''E'')
           then None
         else Some (JNum (if neg then - int (digitsVal ds) else int (digitsVal ds)), rest))"

fun stripPrefix :: "string \<Rightarrow> string \<Rightarrow> string option" where
  "stripPrefix [] s = Some s"
| "stripPrefix (p # ps) [] = None"
| "stripPrefix (p # ps) (c # cs) = (if p = c then stripPrefix ps cs else None)"

fun parseValue :: "nat \<Rightarrow> string \<Rightarrow> (json \<times> string) option"
and parseElems :: "nat \<Rightarrow> string \<Rightarrow> (json list \<times> string) option"
and parseMembers :: "nat \<Rightarrow> string \<Rightarrow> ((string \<times> json) list \<times> string) option" where
  "parseValue 0 s = None"
| "parseValue (Suc n) s =
     (case skipWs s of
        [] \<Rightarrow> None
      | c # cs \<Rightarrow>
          if c = CHR ''{'' then
            (case skipWs cs of
               [] \<Rightarrow> None
             | d # r \<Rightarrow> if d = CHR ''}'' then Some (JObj [], r)
                        else map_option (apfst JObj) (parseMembers n cs))
          else if c = CHR ''['' then
            (case skipWs cs of
               [] \<Rightarrow> None
             | d # r \<Rightarrow> if d = CHR '']'' then Some (JArr [], r)
                        else map_option (apfst JArr) (parseElems n cs))
          else if c = CHR 0x22 then map_option (apfst JStr) (parseChars cs)
          else if c = CHR ''n'' then map_option (Pair JNull) (stripPrefix ''ull'' cs)
          else if c = CHR ''t'' then map_option (Pair (JBool True)) (stripPrefix ''rue'' cs)
          else if c = CHR ''f'' then map_option (Pair (JBool False)) (stripPrefix ''alse'' cs)
          else parseNumber (c # cs))"
| "parseElems 0 s = None"
| "parseElems (Suc n) s =
     (case parseValue n s of
        None \<Rightarrow> None
      | Some (v, r) \<Rightarrow>
          (case skipWs r of
             [] \<Rightarrow> None
           | d # r' \<Rightarrow> if d = CHR '','' then consFst v (parseElems n r')
                       else if d = CHR '']'' then Some ([v], r')
                       else None))"
| "parseMembers 0 s = None"
| "parseMembers (Suc n) s =
     (case skipWs s of
        [] \<Rightarrow> None
      | q # r \<Rightarrow>
          if q \<noteq> CHR 0x22 then None
          else
            (case parseChars r of
               None \<Rightarrow> None
             | Some (k, r1) \<Rightarrow>
                 (case skipWs r1 of
                    [] \<Rightarrow> None
                  | col # r2 \<Rightarrow>
                      if col \<noteq> CHR '':'' then None
                      else
                        (case parseValue n r2 of
                           None \<Rightarrow> None
                         | Some (v, r3) \<Rightarrow>
                             (case skipWs r3 of
                                [] \<Rightarrow> None
                              | d # r4 \<Rightarrow>
                                  if d = CHR '','' then consFst (k, v) (parseMembers n r4)
                                  else if d = CHR ''}'' then Some ([(k, v)], r4)
                                  else None)))))"

definition JSON_parse :: "string \<Rightarrow> json option" where
  "JSON_parse s =
     (case parseValue (length s) s of
        None \<Rightarrow> None
      | Some (v, r) \<Rightarrow> if skipWs r = [] then Some v else None)"

text \<open>
  The number of nested parser calls that reading a value back takes, and the two
  conditions on the text around a value that the proofs below use.
\<close>

fun need :: "json \<Rightarrow> nat"
and needElems :: "json list \<Rightarrow> nat"
and needMembers :: "(string \<times> json) list \<Rightarrow> nat" where
  "need (JArr xs) = Suc (needElems xs)"
| "need (JObj ms) = Suc (needMembers ms)"
| "need v = 1"
| "needElems [] = 0"
| "needElems (x # xs) = Suc (need x + needElems xs)"
| "needMembers [] = 0"
| "needMembers ((k, v) # ms) = Suc (need v + needMembers ms)"

definition delim :: "string \<Rightarrow> bool" where
  "delim rest =
     (case rest of [] \<Rightarrow> True | c # _ \<Rightarrow> c = CHR '','' \<or> c = CHR '']'' \<or> c = CHR ''}'')"

definition startsValue :: "string \<Rightarrow> bool" where
  "startsValue s =
     (case s of [] \<Rightarrow> False | c # _ \<Rightarrow> \<not> isWs c \<and> c \<noteq> CHR '']'' \<and> c \<noteq> CHR ''}'')"

subsection \<open>A UserProgress record as a JSON value\<close>

text \<open>
  The members are written in the order of the object literals of the source
  (\<open>getInitialProgress\<close> for the record, \<open>handleFinish\<close> and \<open>finishQuiz\<close> for a
  history entry; the spread \<open>{...currentProgress, ...}\<close> keeps the order). A \<open>score\<close>
  that is \<open>undefined\<close> is left out by \<open>JSON.stringify\<close>. Reading a member takes the last
  one of that name, as \<open>JSON.parse\<close> does.
\<close>

definition sessionToJSON :: "StudySession \<Rightarrow> json" where
  "sessionToJSON s =
     JObj ([(''date'', JStr (date s)), (''type'', JStr (sessionTypeValue (type s)))]
           @ (case score s of None \<Rightarrow> [] | Some n \<Rightarrow> [(''score'', JNum (int n))]))"

definition progressToJSON :: "UserProgress \<Rightarrow> json" where
  "progressToJSON p =
     JObj [(''plantsStudiedCount'', JNum (int (plantsStudiedCount p))),
           (''lastStudyDate'', (case lastStudyDate p of None \<Rightarrow> JNull | Some d \<Rightarrow> JStr d)),
           (''streakDays'', JNum (int (streakDays p))),
           (''quizTotalQuestions'', JNum (int (quizTotalQuestions p))),
           (''quizCorrectAnswers'', JNum (int (quizCorrectAnswers p))),
           (''history'', JArr (map sessionToJSON (history p)))]"

definition getField :: "string \<Rightarrow> (string \<times> json) list \<Rightarrow> json option" where
  "getField k ms = map_of (rev ms) k"

fun asCount :: "json option \<Rightarrow> nat option" where
  "asCount (Some (JNum i)) = (if 0 \<le> i then Some (nat i) else None)"
| "asCount _ = None"

fun asSessionType :: "json option \<Rightarrow> SessionType option" where
  "asSessionType (Some (JStr s)) =
     (if s = ''CYCLE'' then Some CYCLE else if s = ''QUIZ'' then Some QUIZ else None)"
| "asSessionType _ = None"

fun asString :: "json option \<Rightarrow> string option" where
  "asString (Some (JStr s)) = Some s"
| "asString _ = None"

fun sessionFromJSON :: "json \<Rightarrow> StudySession option" where
  "sessionFromJSON (JObj ms) =
     (case (asString (getField ''date'' ms), asSessionType (getField ''type'' ms)) of
        (Some d, Some t) \<Rightarrow>
          (case getField ''score'' ms of
             None \<Rightarrow> Some \<lparr>date = d, type = t, score = None\<rparr>
           | Some sc \<Rightarrow>
               (case asCount (Some sc) of
                  None \<Rightarrow> None
                | Some n \<Rightarrow> Some \<lparr>date = d, type = t, score = Some n\<rparr>))
      | _ \<Rightarrow> None)"
| "sessionFromJSON _ = None"

fun asDate :: "json option \<Rightarrow> string option option" where
  "asDate (Some JNull) = Some None"
| "asDate (Some (JStr s)) = Some (Some s)"
| "asDate _ = None"

fun asHistory :: "json option \<Rightarrow> StudySession list option" where
  "asHistory (Some (JArr xs)) = those (map sessionFromJSON xs)"
| "asHistory _ = None"

fun progressFromJSON :: "json \<Rightarrow> UserProgress option" where
  "progressFromJSON (JObj ms) =
     (case (asCount (getField ''plantsStudiedCount'' ms),
            asDate (getField ''lastStudyDate'' ms),
            asCount (getField ''streakDays'' ms),
            asCount (getField ''quizTotalQuestions'' ms),
            asCount (getField ''quizCorrectAnswers'' ms),
            asHistory (getField ''history'' ms)) of
        (Some n, Some d, Some s, Some t, Some c, Some h) \<Rightarrow>
          Some \<lparr>plantsStudiedCount = n, lastStudyDate = d, streakDays = s,
                quizTotalQuestions = t, quizCorrectAnswers = c, history = h\<rparr>
      | _ \<Rightarrow> None)"
| "progressFromJSON _ = None"

section \<open>Services and helpers (App.tsx)\<close>

subsection \<open>The progress store\<close>

type_synonym localStorage = "string \<Rightarrow> string option"

definition PROGRESS_KEY :: string where
  "PROGRESS_KEY = ''oliveira_garden_progress_v1''"


definition initialProgress :: UserProgress where
  "initialProgress =
     \<lparr>plantsStudiedCount = 0, lastStudyDate = None, streakDays = 0,
      quizTotalQuestions = 0, quizCorrectAnswers = 0, history = []\<rparr>"

text \<open>
  \<open>getInitialProgress\<close>: \<open>if (stored) return JSON.parse(stored)\<close>, where a missing key
  and the empty string are both falsy; otherwise the zero record.
\<close>

definition getInitialProgress :: "localStorage \<Rightarrow> error + UserProgress" where
  "getInitialProgress ls =
     (case ls PROGRESS_KEY of
        None \<Rightarrow> Inr initialProgress
      | Some stored \<Rightarrow>
          if stored = [] then Inr initialProgress
          else
            (case JSON_parse stored of
               None \<Rightarrow> Inl SyntaxError
             | Some j \<Rightarrow>
                 (case progressFromJSON j of
                    None \<Rightarrow> Inl TypeError
                  | Some p \<Rightarrow> Inr p)))"

definition saveProgress :: "localStorage \<Rightarrow> UserProgress \<Rightarrow> localStorage" where
  "saveProgress ls progress = ls(PROGRESS_KEY \<mapsto> stringify (progressToJSON progress))"

subsection \<open>Calendar dates\<close>

text \<open>
  Time is the number of milliseconds since the epoch, an integer. The source reads the
  clock with \<open>new Date()\<close>, takes the UTC calendar date of an instant with
  \<open>toISOString().split('T')[0]\<close> (\<open>isoDate\<close>) and turns a stored date back into an
  instant with \<open>new Date(lastStudyDate).getTime()\<close> (\<open>parseDate\<close>): a date-only string
  is UTC midnight of that day. Both follow the proleptic Gregorian calendar by the usual
  era/day-of-era computation. \<open>parseDate\<close> models the format \<open>YYYY-MM-DD\<close> that
  \<open>isoDate\<close> writes for the years 0 to 9999; every other string is an invalid date here
  (\<open>None\<close>, the \<open>NaN\<close> of \<open>getTime\<close>).
\<close>

definition msPerDay :: int where
  "msPerDay = 1000 * 60 * 60 * 24"

definition civilFromDays :: "int \<Rightarrow> int \<times> int \<times> int" where
  "civilFromDays days =
     (let z = days + 719468;
          era = z div 146097;
          doe = z - era * 146097;
          yoe = (doe - doe div 1460 + doe div 36524 - doe div 146096) div 365;
          doy = doe - (365 * yoe + yoe div 4 - yoe div 100);
          mp = (5 * doy + 2) div 153;
          d = doy - (153 * mp + 2) div 5 + 1;
          m = (if mp < 10 then mp + 3 else mp - 9);
          y = yoe + era * 400 + (if m \<le> 2 then 1 else 0)
      in (y, m, d))"

definition daysFromCivil :: "int \<Rightarrow> int \<Rightarrow> int \<Rightarrow> int" where
  "daysFromCivil y m d =
     (let y' = (if m \<le> 2 then y - 1 else y);
          era = y' div 400;
          yoe = y' - era * 400;
          doy = (153 * (if m > 2 then m - 3 else m + 9) + 2) div 5 + d - 1;
          doe = yoe * 365 + yoe div 4 - yoe div 100 + doy
      in era * 146097 + doe - 719468)"

definition daysInMonth :: "int \<Rightarrow> int \<Rightarrow> int" where
  "daysInMonth y m =
     (if m = 2 then (if y mod 4 = 0 \<and> (y mod 100 \<noteq> 0 \<or> y mod 400 = 0) then 29 else 28)
      else if m = 4 \<or> m = 6 \<or> m = 9 \<or> m = 11 then 30
      else 31)"

definition padStart :: "nat \<Rightarrow> string \<Rightarrow> string" where
  "padStart width s = replicate (width - length s) CHR ''0'' @ s"

definition isoDate :: "int \<Rightarrow> string" where
  "isoDate t =
     (case civilFromDays (t div msPerDay) of
        (y, m, d) \<Rightarrow>
          (if 0 \<le> y \<and> y \<le> 9999 then padStart 4 (showNat (nat y))
           else (if y < 0 then ''-'' else ''+'') @ padStart 6 (showNat (nat \<bar>y\<bar>)))
          @ ''-'' @ padStart 2 (showNat (nat m)) @ ''-'' @ padStart 2 (showNat (nat d)))"

definition parseDate :: "string \<Rightarrow> int option" where
  "parseDate s =
     (if length s = 10 \<and> s ! 4 = CHR ''-'' \<and> s ! 7 = CHR ''-''
         \<and> list_all isDigit (take 4 s @ take 2 (drop 5 s) @ take 2 (drop 8 s))
      then
        (let y = int (digitsVal (take 4 s));
             m = int (digitsVal (take 2 (drop 5 s)));
             d = int (digitsVal (take 2 (drop 8 s)))
         in if 1 \<le> m \<and> m \<le> 12 \<and> 1 \<le> d \<and> d \<le> daysInMonth y m
            then Some (daysFromCivil y m d * msPerDay)
            else None)
      else None)"

subsection \<open>Numbers that are not integers\<close>

text \<open>
  Two computations of the source leave the integers: the scale factor of the image codec
  and the accuracy on the progress page. A JavaScript number is then a rational, one of
  the infinities or \<open>NaN\<close>. The operations take the rounding of the floating-point
  format as a parameter \<open>rnd\<close>, applied to the exact result of each operation;
  \<open>roundsToNearest\<close> states what binary64 rounding guarantees: numbers of magnitude
  between \<open>2^-1022\<close> and \<open>2^1023\<close> move by at most the relative error \<open>2^-53\<close>,
  and the integers up to \<open>2^53\<close> do not move.
\<close>

datatype number = Finite rat | PosInfinity | NegInfinity | NaN

definition roundsToNearest :: "(rat \<Rightarrow> rat) \<Rightarrow> bool" where
  "roundsToNearest rnd \<longleftrightarrow>
     (\<forall>x. 1 / 2 ^ 1022 \<le> \<bar>x\<bar> \<and> \<bar>x\<bar> \<le> 2 ^ 1023 \<longrightarrow> \<bar>rnd x - x\<bar> \<le> \<bar>x\<bar> / 2 ^ 53)
     \<and> (\<forall>n::nat. n \<le> 2 ^ 53 \<longrightarrow> rnd (of_nat n) = of_nat n)"

definition jsDivide :: "(rat \<Rightarrow> rat) \<Rightarrow> nat \<Rightarrow> nat \<Rightarrow> number" where
  "jsDivide rnd a b =
     (if b = 0 then (if a = 0 then NaN else PosInfinity)
      else Finite (rnd (of_nat a / of_nat b)))"

definition jsTimes :: "(rat \<Rightarrow> rat) \<Rightarrow> number \<Rightarrow> nat \<Rightarrow> number" where
  "jsTimes rnd x b =
     (case x of
        Finite r \<Rightarrow> Finite (rnd (r * of_nat b))
      | PosInfinity \<Rightarrow> if b = 0 then NaN else PosInfinity
      | NegInfinity \<Rightarrow> if b = 0 then NaN else NegInfinity
      | NaN \<Rightarrow> NaN)"

definition jsLess :: "number \<Rightarrow> rat \<Rightarrow> bool" where
  "jsLess x c =
     (case x of Finite r \<Rightarrow> r < c | NegInfinity \<Rightarrow> True | PosInfinity \<Rightarrow> False | NaN \<Rightarrow> False)"

text \<open>\<open>Math.round\<close>: the nearest integer, a tie going up.\<close>

definition mathRound :: "number \<Rightarrow> number" where
  "mathRound x = (case x of Finite r \<Rightarrow> Finite (of_int \<lfloor>r + 1 / 2\<rfloor>) | _ \<Rightarrow> x)"

text \<open>
  \<open>canvas.width\<close> and \<open>canvas.height\<close> are attributes of type \<open>unsigned long\<close>: a number
  assigned to them is truncated and reduced modulo \<open>2^32\<close>, and a value above
  \<open>2^31 - 1\<close> is replaced by the default of the attribute.
\<close>

definition toUnsignedLong :: "number \<Rightarrow> nat" where
  "toUnsignedLong x =
     (case x of
        Finite r \<Rightarrow> nat ((if 0 \<le> r then \<lfloor>r\<rfloor> else - \<lfloor>- r\<rfloor>) mod 2 ^ 32)
      | _ \<Rightarrow> 0)"

definition setDimension :: "nat \<Rightarrow> number \<Rightarrow> nat" where
  "setDimension dflt x = (let v = toUnsignedLong x in if v \<le> 2147483647 then v else dflt)"

subsection \<open>compressImage\<close>

text \<open>
  A selected file, as far as the codec looks at it: \<open>decoded\<close> is the width and height of
  the image once it has loaded, \<open>None\<close> when the reader or the image reports an error
  (the promise is rejected); \<open>encoded w h\<close> is what the JPEG encoder writes for the canvas
  of that size on which the image was drawn. \<open>toDataURL\<close> returns a \<open>data:\<close> URL.
  \<open>canvasSize\<close> is the size the source gives the canvas.
\<close>

record File =
  decoded :: "(nat \<times> nat) option"
  encoded :: "nat \<Rightarrow> nat \<Rightarrow> string"

definition MAX_WIDTH :: nat where
  "MAX_WIDTH = 600"

definition canvasSize :: "(rat \<Rightarrow> rat) \<Rightarrow> nat \<Rightarrow> nat \<Rightarrow> nat \<times> nat" where
  "canvasSize rnd width height =
     (let scaleSize = jsDivide rnd MAX_WIDTH width
      in if jsLess scaleSize 1
         then (setDimension 300 (Finite (of_nat MAX_WIDTH)),
               setDimension 150 (jsTimes rnd scaleSize height))
         else (setDimension 300 (Finite (of_nat width)),
               setDimension 150 (Finite (of_nat height))))"

definition compressImage :: "(rat \<Rightarrow> rat) \<Rightarrow> File \<Rightarrow> error + string" where
  "compressImage rnd file =
     (case decoded file of
        None \<Rightarrow> Inl DecodeError
      | Some (width, height) \<Rightarrow>
          (case canvasSize rnd width height of
             (w, h) \<Rightarrow> Inr (''data:'' @ encoded file w h)))"

subsection \<open>usePlantDatabase\<close>


definition objectPrototypeKeys :: "string list" where
  "objectPrototypeKeys =
     [''constructor'', ''__defineGetter__'', ''__defineSetter__'', ''hasOwnProperty'',
      ''__lookupGetter__'', ''__lookupSetter__'', ''isPrototypeOf'', ''propertyIsEnumerable'',
      ''toString'', ''valueOf'', ''__proto__'', ''toLocaleString'']"

definition getProperty :: "(string \<times> string) list \<Rightarrow> string \<Rightarrow> jsValue option" where
  "getProperty object key =
     (case map_of object key of
        Some v \<Rightarrow> Some (StringValue v)
      | None \<Rightarrow>
          if key \<in> set objectPrototypeKeys then Some (PrototypeProperty key) else None)"

definition mergePlants :: "Plant list \<Rightarrow> (string \<times> string) list \<Rightarrow> Plant list" where
  "mergePlants db images =
     map (\<lambda>p. p\<lparr>imageUrl :=
                  (case getProperty images (id_plant p) of
                     None \<Rightarrow> imageUrl p
                   | Some (StringValue custom) \<Rightarrow>
                       if custom = [] then imageUrl p else StringValue custom
                   | Some (PrototypeProperty name) \<Rightarrow> PrototypeProperty name)\<rparr>) db"






subsection \<open>getRandomPlantsFromList\<close>

text \<open>
  \<open>[...sourcePlants].sort(() => 0.5 - Math.random())\<close> rearranges a copy of the array;
  which arrangement comes out is decided by the random draws. The draws are the
  parameter \<open>draw\<close>: the list of the source positions in the order of the result. A list
  that is not a rearrangement of the positions stands for the one that leaves the array
  as it is, so that every value of the parameter is an outcome and every rearrangement is
  the outcome of some value. \<open>slice0 xs end\<close> is \<open>xs.slice(0, end)\<close>, where a negative
  \<open>end\<close> counts from the end of the array.
\<close>

definition isPermutation :: "nat \<Rightarrow> nat list \<Rightarrow> bool" where
  "isPermutation n draw \<longleftrightarrow> length draw = n \<and> distinct draw \<and> list_all (\<lambda>i. i < n) draw"

definition sortRandom :: "nat list \<Rightarrow> 'a list \<Rightarrow> 'a list" where
  "sortRandom draw xs = (if isPermutation (length xs) draw then map (\<lambda>i. xs ! i) draw else xs)"

definition slice0 :: "'a list \<Rightarrow> int \<Rightarrow> 'a list" where
  "slice0 xs end =
     (let len = int (length xs);
          final = (if end < 0 then max (len + end) 0 else min end len)
      in take (nat final) xs)"

definition getRandomPlantsFromList :: "nat list \<Rightarrow> 'a list \<Rightarrow> int \<Rightarrow> 'a list" where
  "getRandomPlantsFromList draw sourcePlants count =
     (let shuffled = sortRandom draw sourcePlants
      in slice0 shuffled count)"

text \<open>
  The same function on a store of arrays, an array being known by its position in the
  store: the spread allocates the copy, \<open>sort\<close> rearranges the copy in place and
  \<open>slice\<close> allocates the result, whose address is returned with the new store.
\<close>

definition getRandomPlantsFromList_store ::
  "nat list \<Rightarrow> nat \<Rightarrow> int \<Rightarrow> 'a list list \<Rightarrow> nat \<times> 'a list list" where
  "getRandomPlantsFromList_store draw sourcePlants count store =
     (let shuffled = length store;
          store1 = store @ [store ! sourcePlants];
          store2 = store1[shuffled := sortRandom draw (store1 ! shuffled)];
          result = length store2;
          store3 = store2 @ [slice0 (store2 ! shuffled) count]
      in (result, store3))"

text \<open>An index read \<open>xs[i]\<close>: \<open>undefined\<close> outside the array.\<close>

definition index :: "'a list \<Rightarrow> nat \<Rightarrow> 'a option" where
  "index xs i = (if i < length xs then Some (xs ! i) else None)"

section \<open>Pages (App.tsx)\<close>

subsection \<open>CyclePage\<close>

text \<open>
  The state of the component, the store it writes to, and two things React keeps for the
  timer effect: whether an interval is scheduled and the dependencies
  \<open>[isActive, timeLeft]\<close> the effect last ran with.
\<close>

record CycleState =
  sessionPlants :: "Plant list"
  currentIndex :: nat
  showDetails :: bool
  timeLeft :: int
  isActive :: bool
  isFinished :: bool
  storage_c :: localStorage
  interval :: bool
  lastDeps :: "(bool \<times> int) option"

text \<open>
  The streak of \<open>handleFinish\<close> (the block under \<open>// Check streak\<close>). \<open>now\<close> is the
  clock; the two reads of the clock in \<open>handleFinish\<close> are one instant here.
  \<open>Math.ceil(diffTime / (1000 * 60 * 60 * 24))\<close> is the integer ceiling of the quotient
  (the floating-point quotient of two integers of this size has the same ceiling). An
  invalid stored date makes \<open>diffDays\<close> \<open>NaN\<close>, for which both comparisons are false.
\<close>

definition streakCheck :: "int \<Rightarrow> UserProgress \<Rightarrow> nat" where
  "streakCheck now currentProgress =
     (let today = isoDate now;
          streak = streakDays currentProgress
      in case lastStudyDate currentProgress of
           None \<Rightarrow> 1
         | Some lastDate \<Rightarrow>
             if lastDate = [] then 1
             else
               (case parseDate lastDate of
                  None \<Rightarrow> streak
                | Some lastTime \<Rightarrow>
                    (let diffTime = \<bar>now - lastTime\<bar>;
                         diffDays = - ((- diffTime) div msPerDay)
                     in if diffDays = 1 then streak + 1
                        else if diffDays > 1 \<and> today \<noteq> lastDate then 1
                        else streak)))"

definition newProgress :: "int \<Rightarrow> Plant list \<Rightarrow> UserProgress \<Rightarrow> UserProgress" where
  "newProgress now plantsOfSession currentProgress =
     currentProgress
       \<lparr>plantsStudiedCount := plantsStudiedCount currentProgress + length plantsOfSession,
        lastStudyDate := Some (isoDate now),
        streakDays := streakCheck now currentProgress,
        history := history currentProgress
                     @ [\<lparr>date = isoDate now, type = CYCLE, score = None\<rparr>]\<rparr>"

text \<open>
  \<open>handleFinish\<close>. An exception of \<open>getInitialProgress\<close> leaves the handler: the result
  is the error.
\<close>

definition handleFinish :: "int \<Rightarrow> CycleState \<Rightarrow> error + CycleState" where
  "handleFinish now st =
     (case getInitialProgress (storage_c st) of
        Inl e \<Rightarrow> Inl e
      | Inr currentProgress \<Rightarrow>
          Inr (st\<lparr>isActive := False, isFinished := True,
                  storage_c := saveProgress (storage_c st)
                                 (newProgress now (sessionPlants st) currentProgress)\<rparr>))"

text \<open>
  The timer effect. Before it runs again React runs the cleanup of its last run, which
  clears the interval.
\<close>

definition timerEffect :: "int \<Rightarrow> CycleState \<Rightarrow> error + CycleState" where
  "timerEffect now st =
     (let cleared = st\<lparr>interval := False\<rparr>
      in if isActive st \<and> timeLeft st > 0 then Inr (cleared\<lparr>interval := True\<rparr>)
         else if timeLeft st = 0 then handleFinish now cleared
         else Inr cleared)"

text \<open>
  After a render React runs the effect when \<open>isActive\<close> or \<open>timeLeft\<close> differs from the
  value of the last run; the state the effect sets causes another render, and so on
  until nothing changes. \<open>clock k\<close> is the clock at the \<open>k\<close>-th run of an effect or
  handler while one event is handled.
\<close>

function runEffects :: "(nat \<Rightarrow> int) \<Rightarrow> nat \<Rightarrow> CycleState \<Rightarrow> error + CycleState" where
  "runEffects clock k st =
     (if lastDeps st = Some (isActive st, timeLeft st) then Inr st
      else
        (case timerEffect (clock k) (st\<lparr>lastDeps := Some (isActive st, timeLeft st)\<rparr>) of
           Inl e \<Rightarrow> Inl e
         | Inr st' \<Rightarrow> runEffects clock (Suc k) st'))"
  by pat_completeness auto
termination
proof (relation "measure (\<lambda>(clock, k, st).
    if lastDeps st = Some (isActive st, timeLeft st) then 0 else if isActive st then 2 else 1)")
  show "wf (measure (\<lambda>(clock :: nat \<Rightarrow> int, k :: nat, st :: CycleState).
    if lastDeps st = Some (isActive st, timeLeft st) then 0 else if isActive st then 2 else (1::nat)))"
    by simp
next
  fix clock :: "nat \<Rightarrow> int" and k :: nat and st st' :: CycleState
  assume "lastDeps st \<noteq> Some (isActive st, timeLeft st)"
    and "timerEffect (clock k) (st\<lparr>lastDeps := Some (isActive st, timeLeft st)\<rparr>) = Inr st'"
  then show "((clock, Suc k, st'), (clock, k, st)) \<in> measure (\<lambda>(clock, k, st).
    if lastDeps st = Some (isActive st, timeLeft st) then 0 else if isActive st then 2 else 1)"
    by (auto simp: timerEffect_def handleFinish_def Let_def split: if_splits sum.splits)
qed

declare runEffects.simps [simp del]

text \<open>
  Mounting the page: the first render has the initial state; the effect that initializes
  the cycle samples two plants and sets \<open>isActive\<close>, the timer effect of that render sees
  the initial state; the renders that follow run the timer effect again.
\<close>

definition initialCycle :: "localStorage \<Rightarrow> CycleState" where
  "initialCycle ls =
     \<lparr>sessionPlants = [], currentIndex = 0, showDetails = False, timeLeft = 180,
      isActive = False, isFinished = False, storage_c = ls, interval = False,
      lastDeps = None\<rparr>"

definition mountCycle ::
  "(nat \<Rightarrow> int) \<Rightarrow> nat list \<Rightarrow> Plant list \<Rightarrow> localStorage \<Rightarrow> error + CycleState" where
  "mountCycle clock draw plantList ls =
     (case timerEffect (clock 0) ((initialCycle ls)\<lparr>lastDeps := Some (False, 180)\<rparr>) of
        Inl e \<Rightarrow> Inl e
      | Inr st \<Rightarrow>
          runEffects clock 1
            (if length plantList > 0
             then st\<lparr>sessionPlants := getRandomPlantsFromList draw plantList 2,
                     isActive := True\<rparr>
             else st))"

text \<open>
  The events of the page. A tick is the callback of the interval; the buttons exist only
  while the page shows a plant, and only one of \<open>Proxima\<close> and \<open>Finalizar\<close> is shown.
\<close>

datatype CycleEvent = Tick | ToggleDetails | NextPlant | Finish

definition cycleStep :: "(nat \<Rightarrow> int) \<Rightarrow> CycleEvent \<Rightarrow> CycleState \<Rightarrow> error + CycleState" where
  "cycleStep clock ev st =
     (case ev of
        Tick \<Rightarrow>
          if interval st then runEffects clock 0 (st\<lparr>timeLeft := timeLeft st - 1\<rparr>)
          else Inr st
      | ToggleDetails \<Rightarrow>
          if sessionPlants st = [] \<or> isFinished st then Inr st
          else Inr (st\<lparr>showDetails := \<not> showDetails st\<rparr>)
      | NextPlant \<Rightarrow>
          if sessionPlants st = [] \<or> isFinished st then Inr st
          else if int (currentIndex st) < int (length (sessionPlants st)) - 1
          then Inr (st\<lparr>currentIndex := currentIndex st + 1, showDetails := False\<rparr>)
          else Inr st
      | Finish \<Rightarrow>
          if sessionPlants st = [] \<or> isFinished st then Inr st
          else if int (currentIndex st) < int (length (sessionPlants st)) - 1 then Inr st
          else (case handleFinish (clock 0) st of
                  Inl e \<Rightarrow> Inl e
                | Inr st' \<Rightarrow> runEffects clock 1 st'))"

fun cycleRun :: "((nat \<Rightarrow> int) \<times> CycleEvent) list \<Rightarrow> CycleState \<Rightarrow> error + CycleState" where
  "cycleRun [] st = Inr st"
| "cycleRun ((clock, ev) # evs) st =
     (case cycleStep clock ev st of Inl e \<Rightarrow> Inl e | Inr st' \<Rightarrow> cycleRun evs st')"

text \<open>
  The page while the countdown runs: \<open>n\<close> seconds left, the interval scheduled, the
  effect having run for this state.
\<close>

definition activeCycle :: "int \<Rightarrow> Plant list \<Rightarrow> localStorage \<Rightarrow> CycleState" where
  "activeCycle n sel ls =
     \<lparr>sessionPlants = sel, currentIndex = 0, showDetails = False, timeLeft = n,
      isActive = True, isFinished = False, storage_c = ls, interval = True,
      lastDeps = Some (True, n)\<rparr>"

subsection \<open>QuizPage\<close>

record QuizState =
  questions :: "QuizQuestion list"
  currentQIndex :: nat
  score_q :: nat
  isFinished_q :: bool
  selectedOption :: "string option"
  isAnswered :: bool
  storage_q :: localStorage

text \<open>
  \<open>generateDailyQuiz\<close>; the six parameters are the draws of its six random sorts, in
  the order of the source. Reading \<open>[0]\<close> of an empty sample and then a property of it
  is the \<open>TypeError\<close>.
\<close>

definition generateDailyQuiz ::
  "nat list \<Rightarrow> nat list \<Rightarrow> nat list \<Rightarrow> nat list \<Rightarrow> nat list \<Rightarrow> nat list
     \<Rightarrow> Plant list \<Rightarrow> error + QuizQuestion list" where
  "generateDailyQuiz d1 d2 d3 d4 d5 d6 plantList =
     (let q1Plant = getRandomPlantsFromList d1 plantList 4;
          q2Sample = getRandomPlantsFromList d2 plantList 1;
          q3Plant = getRandomPlantsFromList d3 plantList 4
      in case (index q1Plant 0, index q2Sample 0, index q3Plant 0) of
           (Some q1First, Some q2Plant, Some q3First) \<Rightarrow>
             Inr [\<lparr>id_q = 1, type_q = SCIENTIFIC_TO_COMMON,
                   questionText = ''Qual o nome popular da planta '' @ [CHR 0x22]
                     @ scientificName q1First @ [CHR 0x22] @ ''?'',
                   imageUrl_q = None,
                   options = sortRandom d4 (map commonName q1Plant),
                   correctAnswer = commonName q1First\<rparr>,
                  \<lparr>id_q = 2, type_q = COMMON_TO_LIGHT,
                   questionText = ''Qual a luminosidade ideal para a planta '' @ [CHR 0x22]
                     @ commonName q2Plant @ [CHR 0x22] @ ''?'',
                   imageUrl_q = None,
                   options = sortRandom d5
                     [lightValue FULL_SUN, lightValue PARTIAL_SHADE, lightValue SHADE],
                   correctAnswer = lightValue (light q2Plant)\<rparr>,
                  \<lparr>id_q = 3, type_q = PHOTO_TO_COMMON,
                   questionText = ''Qual o nome desta planta?'',
                   imageUrl_q = Some (imageUrl q3First),
                   options = sortRandom d6 (map commonName q3Plant),
                   correctAnswer = commonName q3First\<rparr>]
         | _ \<Rightarrow> Inl TypeError)"

text \<open>Mounting the page: the quiz is generated when the catalog is not empty.\<close>

definition mountQuiz ::
  "nat list \<Rightarrow> nat list \<Rightarrow> nat list \<Rightarrow> nat list \<Rightarrow> nat list \<Rightarrow> nat list
     \<Rightarrow> Plant list \<Rightarrow> localStorage \<Rightarrow> error + QuizState" where
  "mountQuiz d1 d2 d3 d4 d5 d6 plantList ls =
     (let st = \<lparr>questions = [], currentQIndex = 0, score_q = 0, isFinished_q = False,
                selectedOption = None, isAnswered = False, storage_q = ls\<rparr>
      in if length plantList > 0
         then (case generateDailyQuiz d1 d2 d3 d4 d5 d6 plantList of
                 Inl e \<Rightarrow> Inl e
               | Inr qs \<Rightarrow> Inr (st\<lparr>questions := qs\<rparr>))
         else Inr st)"

definition handleAnswer :: "string \<Rightarrow> QuizState \<Rightarrow> error + QuizState" where
  "handleAnswer option st =
     (if isAnswered st then Inr st
      else
        (case index (questions st) (currentQIndex st) of
           None \<Rightarrow> Inl TypeError
         | Some q \<Rightarrow>
             Inr (st\<lparr>selectedOption := Some option, isAnswered := True,
                     score_q := (if option = correctAnswer q then score_q st + 1
                                 else score_q st)\<rparr>)))"

text \<open>
  \<open>finishQuiz\<close>. The source computes \<open>finalScore\<close> and does not use it: what is saved
  is the state \<open>score\<close>.
\<close>

definition finishQuiz :: "int \<Rightarrow> QuizState \<Rightarrow> error + QuizState" where
  "finishQuiz now st =
     (case getInitialProgress (storage_q st) of
        Inl e \<Rightarrow> Inl e
      | Inr progress \<Rightarrow>
          (case index (questions st) (currentQIndex st) of
             None \<Rightarrow> Inl TypeError
           | Some q \<Rightarrow>
               (let finalScore =
                      score_q st + (if selectedOption st = Some (correctAnswer q) then 1 else 0)
                in Inr (st\<lparr>isFinished_q := True,
                           storage_q := saveProgress (storage_q st)
                             (progress\<lparr>quizTotalQuestions := quizTotalQuestions progress + 3,
                                       quizCorrectAnswers := quizCorrectAnswers progress + score_q st,
                                       history := history progress
                                         @ [\<lparr>date = isoDate now, type = QUIZ,
                                             score = Some (score_q st)\<rparr>]\<rparr>)\<rparr>))))"

definition nextQuestion :: "int \<Rightarrow> QuizState \<Rightarrow> error + QuizState" where
  "nextQuestion now st =
     (if currentQIndex st < 2
      then Inr (st\<lparr>currentQIndex := currentQIndex st + 1, selectedOption := None,
                   isAnswered := False\<rparr>)
      else finishQuiz now st)"

text \<open>
  The events of the page: a click on an option, and a click on the button under the
  options, which exists once the question is answered. There are no buttons before the
  questions exist and after the quiz is finished.
\<close>

datatype QuizEvent = Answer string | Next

definition quizStep :: "int \<Rightarrow> QuizEvent \<Rightarrow> QuizState \<Rightarrow> error + QuizState" where
  "quizStep now ev st =
     (if questions st = [] \<or> isFinished_q st then Inr st
      else case ev of
             Answer option \<Rightarrow> handleAnswer option st
           | Next \<Rightarrow> if isAnswered st then nextQuestion now st else Inr st)"

fun quizRun :: "(int \<times> QuizEvent) list \<Rightarrow> QuizState \<Rightarrow> error + QuizState" where
  "quizRun [] st = Inr st"
| "quizRun ((now, ev) # evs) st =
     (case quizStep now ev st of Inl e \<Rightarrow> Inl e | Inr st' \<Rightarrow> quizRun evs st')"

subsection \<open>ProgressPage\<close>

definition quizAccuracy :: "(rat \<Rightarrow> rat) \<Rightarrow> UserProgress \<Rightarrow> number" where
  "quizAccuracy rnd progress =
     (if quizTotalQuestions progress > 0
      then mathRound (jsTimes rnd
             (jsDivide rnd (quizCorrectAnswers progress) (quizTotalQuestions progress)) 100)
      else Finite 0)"

section \<open>Sample data\<close>

text \<open>Plants, a question and a progress record for the worked examples below.\<close>

definition rosa :: Plant where
  "rosa = \<lparr>id_plant = ''1'', commonName = ''Rosa'', scientificName = ''Rosa chinensis'',
            light = FULL_SUN, category = ''Arbusto'', trivia = ''Floresce o ano todo.'',
            imageUrl = StringValue ''rosa.jpg''\<rparr>"

definition hera :: Plant where
  "hera = \<lparr>id_plant = ''2'', commonName = ''Hera'', scientificName = ''Hedera helix'',
            light = PARTIAL_SHADE, category = ''Trepadeira'', trivia = ''Cobre muros.'',
            imageUrl = StringValue ''hera.jpg''\<rparr>"

definition jiboia :: Plant where
  "jiboia = \<lparr>id_plant = ''3'', commonName = ''Jiboia'', scientificName = ''Epipremnum aureum'',
              light = PARTIAL_SHADE, category = ''Pendente'', trivia = ''Cresce em agua.'',
              imageUrl = StringValue ''jiboia.jpg''\<rparr>"

definition lirio :: Plant where
  "lirio = \<lparr>id_plant = ''4'', commonName = ''Lirio-da-paz'',
             scientificName = ''Spathiphyllum wallisii'', light = SHADE,
             category = ''Folhagem'', trivia = ''Tolera pouca luz.'',
             imageUrl = StringValue ''lirio.jpg''\<rparr>"

definition rosaMini :: Plant where
  "rosaMini = \<lparr>id_plant = ''5'', commonName = ''Rosa'',
                scientificName = ''Rosa chinensis minima'', light = FULL_SUN,
                category = ''Arbusto'', trivia = ''Cabe em vasos.'',
                imageUrl = StringValue ''rosa-mini.jpg''\<rparr>"

definition sampleQuestion :: QuizQuestion where
  "sampleQuestion =
     \<lparr>id_q = 3, type_q = PHOTO_TO_COMMON, questionText = ''Qual o nome desta planta?'',
      imageUrl_q = Some (StringValue ''rosa.jpg''), options = [''Rosa'', ''Lirio-da-paz'', ''Hera'', ''Jiboia''],
      correctAnswer = ''Rosa''\<rparr>"

definition studiedOct4 :: UserProgress where
  "studiedOct4 =
     \<lparr>plantsStudiedCount = 2, lastStudyDate = Some ''2024-10-04'', streakDays = 5,
      quizTotalQuestions = 0, quizCorrectAnswers = 0,
      history = [\<lparr>date = ''2024-10-04'', type = CYCLE, score = None\<rparr>]\<rparr>"

definition catalog4 :: "Plant list" where
  "catalog4 = [rosa, hera, jiboia, lirio]"

definition catalogDup :: "Plant list" where
  "catalogDup = [rosa, rosaMini, hera, jiboia]"



definition photo :: File where
  "photo = \<lparr>decoded = Some (1200, 800),
            encoded = (\<lambda>w h. if w = 600 \<and> h = 400 then ''image/jpeg;base64,/9j/4AAQ''
                             else ''image/jpeg;base64,/9j/2wBD'')\<rparr>"

definition thumbnail :: File where
  "thumbnail = \<lparr>decoded = Some (480, 360),
                encoded = (\<lambda>w h. if w = 480 \<and> h = 360 then ''image/jpeg;base64,/9j/4QAY''
                                 else ''image/jpeg;base64,/9j/2wBD'')\<rparr>"

definition twoOfThree :: UserProgress where
  "twoOfThree =
     \<lparr>plantsStudiedCount = 0, lastStudyDate = None, streakDays = 0,
      quizTotalQuestions = 3, quizCorrectAnswers = 2,
      history = [\<lparr>date = ''2024-10-04'', type = QUIZ, score = Some 2\<rparr>]\<rparr>"

section \<open>Properties\<close>

subsection \<open>Reading back what JSON.stringify wrote\<close>

lemma consFst_Some [simp]: "consFst x (Some (xs, r)) = Some (x # xs, r)"
  by (simp add: consFst_def)

lemma hexVal_hexDigit: "d < 16 \<Longrightarrow> hexVal (hexDigit d) = Some d"
  by (auto simp: hexVal_def hexDigit_def Let_def)

lemma hexVal_zero: "hexVal CHR ''0'' = Some 0"
  by (simp add: hexVal_def)

lemma hex4_low:
  "n < 256 \<Longrightarrow> hex4 CHR ''0'' CHR ''0'' (hexDigit (n div 16)) (hexDigit (n mod 16)) = Some n"
  by (simp add: hex4_def hexVal_zero hexVal_hexDigit)

lemma parseChars_escapeChar:
  "parseChars (escapeChar c @ t) = consFst c (parseChars t)"
proof -
  let ?named = "{CHR 0x22, CHR 0x5C, CHR 0x08, CHR 0x09, CHR 0x0A, CHR 0x0C, CHR 0x0D}"
  consider (quote) "c = CHR 0x22" | (backslash) "c = CHR 0x5C"
    | (short) "c \<in> {CHR 0x08, CHR 0x09, CHR 0x0A, CHR 0x0C, CHR 0x0D}"
    | (control) "c \<notin> ?named" "(of_char c :: nat) < 32"
    | (plain) "c \<notin> ?named" "\<not> (of_char c :: nat) < 32"
    by blast
  then show ?thesis
  proof cases
    case quote
    then show ?thesis by (simp add: escapeChar_def unescape_def)
  next
    case backslash
    then show ?thesis by (simp add: escapeChar_def unescape_def)
  next
    case short
    then show ?thesis by (auto simp: escapeChar_def unescape_def)
  next
    case control
    have "(of_char c :: nat) < 256" using control(2) by simp
    then have h: "hex4 CHR ''0'' CHR ''0'' (hexDigit (of_char c div 16))
        (hexDigit (of_char c mod 16)) = Some (of_char c)"
      by (rule hex4_low)
    show ?thesis using control by (simp add: escapeChar_def h)
  next
    case plain
    then show ?thesis by (simp add: escapeChar_def)
  qed
qed

lemma parseChars_quoted:
  "parseChars (concat (map escapeChar s) @ CHR 0x22 # rest) = Some (s, rest)"
  by (induction s) (simp_all add: parseChars_escapeChar)

lemma skipWs_delim: "delim rest \<Longrightarrow> skipWs rest = rest"
  by (auto simp: delim_def skipWs_def isWs_def split: list.splits)

lemma isDigit_char_of: "d < (10::nat) \<Longrightarrow> isDigit (char_of (48 + d))"
  by (simp add: isDigit_def)

lemma char_zero: "CHR ''0'' = char_of (48::nat)"
  by code_simp

lemma digit_is_zero: "d < (10::nat) \<Longrightarrow> (char_of (48 + d) = CHR ''0'') = (d = 0)"
  unfolding char_zero by (simp add: char_of_eq_iff take_bit_eq_mod)

lemma showNat_digits: "\<forall>c \<in> set (showNat n). isDigit c"
proof (induction n rule: showNat.induct)
  case (1 n)
  show ?case
  proof (cases "n < 10")
    case True
    then show ?thesis by (subst showNat.simps) (simp add: isDigit_char_of)
  next
    case False
    have "n mod 10 < 10" by simp
    then have "isDigit (char_of (48 + n mod 10))" by (rule isDigit_char_of)
    with False 1 show ?thesis by (subst showNat.simps) auto
  qed
qed

lemma showNat_nonempty: "showNat n \<noteq> []"
  by (subst showNat.simps) simp

lemma digitsVal_append: "digitsVal (ds @ [d]) = 10 * digitsVal ds + (of_char d - 48)"
  by (simp add: digitsVal_def)

lemma digitsVal_showNat: "digitsVal (showNat n) = n"
proof (induction n rule: showNat.induct)
  case (1 n)
  show ?case
  proof (cases "n < 10")
    case True
    then show ?thesis by (subst showNat.simps) (simp add: digitsVal_def)
  next
    case False
    with 1 have "digitsVal (showNat (n div 10)) = n div 10" by simp
    with False show ?thesis
      by (subst showNat.simps) (simp add: digitsVal_append)
  qed
qed

lemma showNat_hd: "0 < n \<Longrightarrow> hd (showNat n) \<noteq> CHR ''0''"
proof (induction n rule: showNat.induct)
  case (1 n)
  show ?case
  proof (cases "n < 10")
    case True
    with 1(2) show ?thesis by (subst showNat.simps) (simp add: digit_is_zero)
  next
    case False
    then have "0 < n div 10" by simp
    with 1(1) False have "hd (showNat (n div 10)) \<noteq> CHR ''0''" by simp
    with False show ?thesis
      by (subst showNat.simps) (simp add: showNat_nonempty)
  qed
qed

lemma showNat_zero: "showNat 0 = ''0''"
  by (subst showNat.simps) (simp add: char_zero)

lemma showNat_leading: "1 < length (showNat n) \<Longrightarrow> hd (showNat n) \<noteq> CHR ''0''"
  by (cases "n = 0") (simp_all add: showNat_zero showNat_hd)

lemma delim_not_digit: "delim rest \<Longrightarrow> rest \<noteq> [] \<Longrightarrow> \<not> isDigit (hd rest)"
  by (auto simp: delim_def isDigit_def split: list.splits)

lemma takeWhile_showNat: "delim rest \<Longrightarrow> takeWhile isDigit (showNat n @ rest) = showNat n"
  using showNat_digits [of n] delim_not_digit [of rest]
  by (cases rest) (auto simp: takeWhile_append2 takeWhile_eq_all_conv)

lemma dropWhile_showNat: "delim rest \<Longrightarrow> dropWhile isDigit (showNat n @ rest) = rest"
  using showNat_digits [of n] delim_not_digit [of rest]
  by (cases rest) (auto simp: dropWhile_append2 dropWhile_eq_Nil_conv)

lemma showNat_not_minus: "hd (showNat n) \<noteq> CHR ''-''"
  using showNat_digits [of n] showNat_nonempty [of n]
  by (cases "showNat n") (auto simp: isDigit_def)

lemma delim_not_frac: "delim rest \<Longrightarrow> rest \<noteq> [] \<Longrightarrow> hd rest \<noteq> CHR ''.'' \<and> hd rest \<noteq> CHR ''e'' \<and> hd rest \<noteq> CHR ''E''"
  by (auto simp: delim_def split: list.splits)

lemma parseNumber_showInt:
  assumes "delim rest"
  shows "parseNumber (showInt i @ rest) = Some (JNum i, rest)"
proof (cases "i < 0")
  case True
  let ?n = "nat (- i)"
  have "showInt i @ rest = CHR ''-'' # showNat ?n @ rest"
    using True by (simp add: showInt_def)
  moreover have "int (digitsVal (showNat ?n)) = - i"
    using True by (simp add: digitsVal_showNat)
  ultimately show ?thesis
    using assms showNat_leading [of ?n] delim_not_frac [of rest]
    by (auto simp: parseNumber_def Let_def takeWhile_showNat dropWhile_showNat showNat_nonempty)
next
  case False
  let ?n = "nat i"
  have e: "showInt i @ rest = showNat ?n @ rest"
    using False by (simp add: showInt_def)
  have v: "int (digitsVal (showNat ?n)) = i"
    using False by (simp add: digitsVal_showNat)
  have h: "hd (showNat ?n @ rest) \<noteq> CHR ''-''"
    using showNat_not_minus [of ?n] showNat_nonempty [of ?n] by simp
  show ?thesis
    unfolding e
    using assms showNat_leading [of ?n] delim_not_frac [of rest] h v
    by (auto simp: parseNumber_def Let_def takeWhile_showNat dropWhile_showNat showNat_nonempty)
qed

lemma skipWs_startsValue: "startsValue s \<Longrightarrow> skipWs s = s"
  by (auto simp: startsValue_def skipWs_def split: list.splits)

lemma showInt_cases:
  "\<exists>c cs. showInt i = c # cs \<and> (c = CHR ''-'' \<or> isDigit c)"
proof (cases "showNat (nat i)")
  case Nil
  then show ?thesis by (simp add: showNat_nonempty)
next
  case (Cons c cs)
  then have "isDigit c" using showNat_digits [of "nat i"] by simp
  with Cons show ?thesis by (auto simp: showInt_def)
qed

lemma parseValue_number:
  assumes "delim rest"
  shows "parseValue (Suc n) (showInt i @ rest) = Some (JNum i, rest)"
proof -
  obtain c cs where s: "showInt i = c # cs" and c: "c = CHR ''-'' \<or> isDigit c"
    using showInt_cases by blast
  have nws: "\<not> isWs c" using c by (auto simp: isWs_def isDigit_def)
  have other: "c \<noteq> CHR ''{''" "c \<noteq> CHR ''[''" "c \<noteq> CHR 0x22" "c \<noteq> CHR ''n''" "c \<noteq> CHR ''t''" "c \<noteq> CHR ''f''"
    using c by (auto simp: isDigit_def)
  have "parseValue (Suc n) (showInt i @ rest) = parseNumber (showInt i @ rest)"
    using nws other by (simp add: s skipWs_def)
  then show ?thesis using assms by (simp add: parseNumber_showInt)
qed

lemma startsValue_stringify: "startsValue (stringify v @ r)"
proof (cases v)
  case (JNum i)
  obtain c cs where s: "showInt i = c # cs" and c: "c = CHR ''-'' \<or> isDigit c"
    using showInt_cases by blast
  then show ?thesis using JNum by (auto simp: startsValue_def isWs_def isDigit_def)
qed (auto simp: startsValue_def isWs_def quoteJSONString_def)

lemma startsValue_elems: "xs \<noteq> [] \<Longrightarrow> startsValue (stringifyElems xs @ r)"
proof (cases xs)
  case (Cons x ys)
  then show ?thesis
    using startsValue_stringify [of x] by (cases ys) simp_all
qed simp

lemma startsValue_members: "ms \<noteq> [] \<Longrightarrow> startsValue (stringifyMembers ms @ r)"
proof (cases ms)
  case (Cons m ys)
  then show ?thesis
    by (cases m; cases ys) (simp_all add: startsValue_def isWs_def quoteJSONString_def)
qed simp

lemma members_head:
  "stringifyMembers ((k, v) # ms) @ r =
     CHR 0x22 # concat (map escapeChar k) @ CHR 0x22 # CHR '':'' # stringify v
       @ (if ms = [] then r else CHR '','' # stringifyMembers ms @ r)"
  by (cases ms) (simp_all add: quoteJSONString_def)

lemma elems_head:
  "stringifyElems (x # xs) @ r = stringify x @ (if xs = [] then r else CHR '','' # stringifyElems xs @ r)"
  by (cases xs) simp_all

lemma parseValue_array:
  assumes n: "needElems xs \<le> n" and d: "delim rest"
    and ih: "xs \<noteq> [] \<Longrightarrow> parseElems n (stringifyElems xs @ CHR '']'' # rest) = Some (xs, rest)"
  shows "parseValue (Suc n) (stringify (JArr xs) @ rest) = Some (JArr xs, rest)"
proof (cases "xs = []")
  case True
  then show ?thesis by (simp add: skipWs_def isWs_def)
next
  case False
  let ?body = "stringifyElems xs @ CHR '']'' # rest"
  have sv: "startsValue ?body" using False by (rule startsValue_elems)
  then obtain c cs where b: "?body = c # cs" and c: "c \<noteq> CHR '']''"
    by (auto simp: startsValue_def split: list.splits)
  have "skipWs ?body = c # cs" using sv b by (simp add: skipWs_startsValue)
  then have "parseValue (Suc n) (CHR ''['' # ?body) = map_option (apfst JArr) (parseElems n ?body)"
    using c by (simp add: skipWs_def isWs_def)
  then show ?thesis using ih [OF False] by simp
qed

lemma parseValue_object:
  assumes n: "needMembers ms \<le> n" and d: "delim rest"
    and ih: "ms \<noteq> [] \<Longrightarrow> parseMembers n (stringifyMembers ms @ CHR ''}'' # rest) = Some (ms, rest)"
  shows "parseValue (Suc n) (stringify (JObj ms) @ rest) = Some (JObj ms, rest)"
proof (cases "ms = []")
  case True
  then show ?thesis by (simp add: skipWs_def isWs_def)
next
  case False
  let ?body = "stringifyMembers ms @ CHR ''}'' # rest"
  have sv: "startsValue ?body" using False by (rule startsValue_members)
  then obtain c cs where b: "?body = c # cs" and c: "c \<noteq> CHR ''}''"
    by (auto simp: startsValue_def split: list.splits)
  have "skipWs ?body = c # cs" using sv b by (simp add: skipWs_startsValue)
  then have "parseValue (Suc n) (CHR ''{'' # ?body) = map_option (apfst JObj) (parseMembers n ?body)"
    using c by (simp add: skipWs_def isWs_def)
  then show ?thesis using ih [OF False] by simp
qed

lemma parseElems_step:
  assumes v: "parseValue n (stringify x @ (if xs = [] then CHR '']'' # rest else CHR '','' # stringifyElems xs @ CHR '']'' # rest))
                = Some (x, (if xs = [] then CHR '']'' # rest else CHR '','' # stringifyElems xs @ CHR '']'' # rest))"
    and ih: "xs \<noteq> [] \<Longrightarrow> parseElems n (stringifyElems xs @ CHR '']'' # rest) = Some (xs, rest)"
  shows "parseElems (Suc n) (stringifyElems (x # xs) @ CHR '']'' # rest) = Some (x # xs, rest)"
proof (cases "xs = []")
  case True
  with v show ?thesis by (simp add: skipWs_def isWs_def)
next
  case False
  with v ih show ?thesis by (simp add: elems_head skipWs_def isWs_def)
qed

lemma parseMembers_step:
  assumes v: "parseValue n (stringify v @ (if ms = [] then CHR ''}'' # rest else CHR '','' # stringifyMembers ms @ CHR ''}'' # rest))
                = Some (v, (if ms = [] then CHR ''}'' # rest else CHR '','' # stringifyMembers ms @ CHR ''}'' # rest))"
    and ih: "ms \<noteq> [] \<Longrightarrow> parseMembers n (stringifyMembers ms @ CHR ''}'' # rest) = Some (ms, rest)"
  shows "parseMembers (Suc n) (stringifyMembers ((k, v) # ms) @ CHR ''}'' # rest) = Some ((k, v) # ms, rest)"
proof (cases "ms = []")
  case True
  with v show ?thesis
    by (simp add: quoteJSONString_def parseChars_quoted skipWs_def isWs_def)
next
  case False
  with v ih show ?thesis
    by (simp add: members_head parseChars_quoted skipWs_def isWs_def)
qed

lemma delim_simps [simp]:
  "delim (CHR '','' # r)" "delim (CHR '']'' # r)" "delim (CHR ''}'' # r)" "delim []"
  by (simp_all add: delim_def)

lemma parse_roundtrip:
  "\<forall>n rest. need v \<le> n \<longrightarrow> delim rest \<longrightarrow> parseValue n (stringify v @ rest) = Some (v, rest)"
  "xs \<noteq> [] \<longrightarrow> (\<forall>n rest. needElems xs \<le> n \<longrightarrow>
       parseElems n (stringifyElems xs @ CHR '']'' # rest) = Some (xs, rest))"
  "ms \<noteq> [] \<longrightarrow> (\<forall>n rest. needMembers ms \<le> n \<longrightarrow>
       parseMembers n (stringifyMembers ms @ CHR ''}'' # rest) = Some (ms, rest))"
proof (induction v and xs and ms rule: stringify_stringifyElems_stringifyMembers.induct)
  case 1
  show ?case
  proof (intro allI impI)
    fix n rest assume "need JNull \<le> n"
    then obtain m where "n = Suc m" by (cases n) auto
    then show "parseValue n (stringify JNull @ rest) = Some (JNull, rest)"
      by (simp add: skipWs_def isWs_def)
  qed
next
  case (2 b)
  show ?case
  proof (intro allI impI)
    fix n rest assume "need (JBool b) \<le> n"
    then obtain m where "n = Suc m" by (cases n) auto
    then show "parseValue n (stringify (JBool b) @ rest) = Some (JBool b, rest)"
      by (simp add: skipWs_def isWs_def)
  qed
next
  case (3 i)
  show ?case
  proof (intro allI impI)
    fix n rest assume "need (JNum i) \<le> n" and d: "delim rest"
    then obtain m where "n = Suc m" by (cases n) auto
    then show "parseValue n (stringify (JNum i) @ rest) = Some (JNum i, rest)"
      using d by (simp del: parseValue.simps add: parseValue_number)
  qed
next
  case (4 s)
  show ?case
  proof (intro allI impI)
    fix n rest assume "need (JStr s) \<le> n"
    then obtain m where "n = Suc m" by (cases n) auto
    then show "parseValue n (stringify (JStr s) @ rest) = Some (JStr s, rest)"
      by (simp add: quoteJSONString_def parseChars_quoted skipWs_def isWs_def)
  qed
next
  case (5 xs)
  show ?case
  proof (intro allI impI)
    fix n rest assume n: "need (JArr xs) \<le> n" and d: "delim rest"
    then obtain m where m: "n = Suc m" "needElems xs \<le> m" by (cases n) auto
    show "parseValue n (stringify (JArr xs) @ rest) = Some (JArr xs, rest)"
      unfolding m(1) using m(2) d 5 by (intro parseValue_array) auto
  qed
next
  case (6 ms)
  show ?case
  proof (intro allI impI)
    fix n rest assume n: "need (JObj ms) \<le> n" and d: "delim rest"
    then obtain m where m: "n = Suc m" "needMembers ms \<le> m" by (cases n) auto
    show "parseValue n (stringify (JObj ms) @ rest) = Some (JObj ms, rest)"
      unfolding m(1) using m(2) d 6 by (intro parseValue_object) auto
  qed
next
  case 7
  show ?case by simp
next
  case (8 x)
  show ?case
  proof (intro allI impI)
    fix n rest assume n: "needElems [x] \<le> n"
    then obtain m where m: "n = Suc m" "need x \<le> m" by (cases n) auto
    show "parseElems n (stringifyElems [x] @ CHR '']'' # rest) = Some ([x], rest)"
      unfolding m(1) using m(2) 8 by (intro parseElems_step) auto
  qed
next
  case (9 x y ys)
  show ?case
  proof (intro allI impI)
    fix n rest assume n: "needElems (x # y # ys) \<le> n"
    then obtain m where m: "n = Suc m" "need x \<le> m" "needElems (y # ys) \<le> m" by (cases n) auto
    show "parseElems n (stringifyElems (x # y # ys) @ CHR '']'' # rest) = Some (x # y # ys, rest)"
      unfolding m(1) using m(2,3) 9 by (intro parseElems_step) auto
  qed
next
  case 10
  show ?case by simp
next
  case (11 k v)
  show ?case
  proof (intro allI impI)
    fix n rest assume n: "needMembers [(k, v)] \<le> n"
    then obtain m where m: "n = Suc m" "need v \<le> m" by (cases n) auto
    show "parseMembers n (stringifyMembers [(k, v)] @ CHR ''}'' # rest) = Some ([(k, v)], rest)"
      unfolding m(1) using m(2) 11 by (intro parseMembers_step) auto
  qed
next
  case (12 k v m' ms)
  show ?case
  proof (intro allI impI)
    fix n rest assume n: "needMembers ((k, v) # m' # ms) \<le> n"
    then obtain m where m: "n = Suc m" "need v \<le> m" "needMembers (m' # ms) \<le> m"
      by (cases n; cases m') auto
    show "parseMembers n (stringifyMembers ((k, v) # m' # ms) @ CHR ''}'' # rest) = Some ((k, v) # m' # ms, rest)"
      unfolding m(1) using m(2,3) 12 by (intro parseMembers_step) auto
  qed
qed

lemma showInt_length: "0 < length (showInt i)"
  by (simp add: showInt_def showNat_nonempty)

lemma need_le_length:
  "need v \<le> length (stringify v)"
  "needElems xs \<le> Suc (length (stringifyElems xs))"
  "needMembers ms \<le> Suc (length (stringifyMembers ms))"
proof (induction v and xs and ms rule: stringify_stringifyElems_stringifyMembers.induct)
  case (3 i)
  show ?case using showInt_length [of i] by (cases "showInt i") simp_all
next
  case (4 s)
  show ?case by (simp add: quoteJSONString_def)
qed (auto simp: quoteJSONString_def)

lemma JSON_parse_stringify: "JSON_parse (stringify v) = Some v"
proof -
  have "parseValue (length (stringify v)) (stringify v @ []) = Some (v, [])"
    using parse_roundtrip(1) [of v] need_le_length(1) [of v] by (simp del: append_Nil2)
  then show ?thesis by (simp add: JSON_parse_def skipWs_def)
qed

lemma sessionFromJSON_sessionToJSON: "sessionFromJSON (sessionToJSON s) = Some s"
  by (cases s; cases "type s"; cases "score s")
     (simp_all add: sessionToJSON_def getField_def)

lemma those_sessions: "those (map (sessionFromJSON \<circ> sessionToJSON) h) = Some h"
  by (induction h) (simp_all add: sessionFromJSON_sessionToJSON)

lemma progressFromJSON_progressToJSON: "progressFromJSON (progressToJSON p) = Some p"
  by (cases p; cases "lastStudyDate p")
     (simp_all add: progressToJSON_def getField_def those_sessions)

lemma stringify_nonempty: "stringify v \<noteq> []"
  using startsValue_stringify [of v "[]"] by (auto simp: startsValue_def)

lemma getInitialProgress_saveProgress:
  "getInitialProgress (saveProgress ls p) = Inr p"
  by (simp add: getInitialProgress_def saveProgress_def stringify_nonempty
      JSON_parse_stringify progressFromJSON_progressToJSON)

lemma getInitialProgress_empty: "getInitialProgress Map.empty = Inr initialProgress"
  by (simp add: getInitialProgress_def)

subsection \<open>The progress store\<close>

text \<open>
  C7. Progress persistence round-trips: for every \<open>UserProgress\<close> record \<open>p\<close> and every
  content of the store, \<open>saveProgress\<close> followed by \<open>getInitialProgress\<close> returns \<open>p\<close>
  itself: all counts, the last study date, the streak and every history entry. The
  record goes through the JSON text that is written under the progress key.
\<close>

theorem progress_round_trip:
  "getInitialProgress (saveProgress ls p) = Inr p"
proof -
  let ?text = "stringify (progressToJSON p)"
  have stored: "saveProgress ls p PROGRESS_KEY = Some ?text"
    by (simp add: saveProgress_def)
  have truthy: "?text \<noteq> []"
    by (rule stringify_nonempty)
  have parsed: "JSON_parse ?text = Some (progressToJSON p)"
    by (rule JSON_parse_stringify)
  have typed: "progressFromJSON (progressToJSON p) = Some p"
    by (rule progressFromJSON_progressToJSON)
  show ?thesis
    using stored truthy parsed typed by (simp add: getInitialProgress_def)
qed

theorem progress_round_trip_witness:
  "getInitialProgress
     (saveProgress Map.empty
        \<lparr>plantsStudiedCount = 4, lastStudyDate = Some ''2024-10-04'', streakDays = 2,
         quizTotalQuestions = 3, quizCorrectAnswers = 1,
         history = [\<lparr>date = ''2024-10-03'', type = CYCLE, score = None\<rparr>,
                    \<lparr>date = ''2024-10-04'', type = QUIZ, score = Some 1\<rparr>]\<rparr>)
   = Inr \<lparr>plantsStudiedCount = 4, lastStudyDate = Some ''2024-10-04'', streakDays = 2,
          quizTotalQuestions = 3, quizCorrectAnswers = 1,
          history = [\<lparr>date = ''2024-10-03'', type = CYCLE, score = None\<rparr>,
                     \<lparr>date = ''2024-10-04'', type = QUIZ, score = Some 1\<rparr>]\<rparr>"
  by (rule progress_round_trip)

subsection \<open>Random samples\<close>

lemma isPermutation_set:
  assumes "isPermutation n draw"
  shows "set draw = {..<n}"
proof -
  have sub: "set draw \<subseteq> {..<n}"
    using assms by (auto simp: isPermutation_def list_all_iff)
  have "card (set draw) = n"
    using assms by (simp add: isPermutation_def distinct_card)
  then show ?thesis
    using sub by (simp add: card_subset_eq)
qed

lemma isPermutation_upt: "isPermutation n [0..<n]"
  by (simp add: isPermutation_def list_all_iff)

text \<open>Every outcome of the random sort reads the array at a rearrangement of its positions.\<close>

lemma sortRandom_positions:
  "\<exists>positions. isPermutation (length xs) positions
     \<and> sortRandom draw xs = map (\<lambda>i. xs ! i) positions"
proof (cases "isPermutation (length xs) draw")
  case True
  then show ?thesis by (auto simp: sortRandom_def)
next
  case False
  have "map (\<lambda>i. xs ! i) [0..<length xs] = xs" by (rule map_nth)
  with False show ?thesis
    using isPermutation_upt [of "length xs"] by (auto simp: sortRandom_def)
qed

lemma length_sortRandom [simp]: "length (sortRandom draw xs) = length xs"
  by (simp add: sortRandom_def isPermutation_def)

lemma set_sortRandom [simp]: "set (sortRandom draw xs) = set xs"
proof -
  obtain ps where p: "isPermutation (length xs) ps" and s: "sortRandom draw xs = map (\<lambda>i. xs ! i) ps"
    using sortRandom_positions by blast
  have "set (map (\<lambda>i. xs ! i) ps) = (\<lambda>i. xs ! i) ` {..<length xs}"
    using isPermutation_set [OF p] by simp
  also have "\<dots> = set xs"
    by (auto simp: set_conv_nth)
  finally show ?thesis using s by simp
qed

lemma distinct_sortRandom:
  assumes "distinct xs"
  shows "distinct (sortRandom draw xs)"
proof -
  obtain ps where p: "isPermutation (length xs) ps" and s: "sortRandom draw xs = map (\<lambda>i. xs ! i) ps"
    using sortRandom_positions by blast
  have "inj_on (\<lambda>i. xs ! i) (set ps)"
    using assms isPermutation_set [OF p] by (auto simp: inj_on_def nth_eq_iff_index_eq)
  moreover have "distinct ps" using p by (simp add: isPermutation_def)
  ultimately show ?thesis using s by (simp add: distinct_map)
qed

lemma map_sortRandom: "map f (sortRandom draw xs) = sortRandom draw (map f xs)"
proof (cases "isPermutation (length xs) draw")
  case True
  then have "\<forall>i \<in> set draw. i < length xs" by (simp add: isPermutation_def list_all_iff)
  then show ?thesis using True by (simp add: sortRandom_def)
next
  case False
  then show ?thesis by (simp add: sortRandom_def)
qed

lemma slice0_nat: "slice0 xs (int n) = take n xs"
  by (simp add: slice0_def Let_def min_def)

lemma getRandomPlantsFromList_take:
  "getRandomPlantsFromList draw xs (int n) = take n (sortRandom draw xs)"
  by (simp add: getRandomPlantsFromList_def slice0_nat)

lemma length_getRandomPlantsFromList:
  "length (getRandomPlantsFromList draw xs (int n)) = min n (length xs)"
  by (simp add: getRandomPlantsFromList_take min.commute)

lemma getRandomPlantsFromList_positions:
  "\<exists>positions. distinct positions \<and> set positions \<subseteq> {..<length xs}
     \<and> length positions = min n (length xs)
     \<and> getRandomPlantsFromList draw xs (int n) = map (\<lambda>i. xs ! i) positions"
proof -
  obtain ps where p: "isPermutation (length xs) ps" and s: "sortRandom draw xs = map (\<lambda>i. xs ! i) ps"
    using sortRandom_positions by blast
  have "distinct (take n ps)" using p by (simp add: isPermutation_def)
  moreover have "set (take n ps) \<subseteq> {..<length xs}"
    using isPermutation_set [OF p] set_take_subset [of n ps] by auto
  moreover have "length (take n ps) = min n (length xs)"
    using p by (simp add: isPermutation_def min.commute)
  moreover have "getRandomPlantsFromList draw xs (int n) = map (\<lambda>i. xs ! i) (take n ps)"
    by (simp add: getRandomPlantsFromList_take s take_map)
  ultimately show ?thesis by blast
qed

lemma distinct_getRandomPlantsFromList:
  "distinct xs \<Longrightarrow> distinct (getRandomPlantsFromList draw xs (int n))"
  by (simp add: getRandomPlantsFromList_take distinct_sortRandom)

lemma getRandomPlantsFromList_store_frame:
  assumes "sourcePlants < length store"
  shows "case getRandomPlantsFromList_store draw sourcePlants count store of
           (result, store') \<Rightarrow>
             length store \<le> result \<and> result < length store'
             \<and> (\<forall>a < length store. store' ! a = store ! a)
             \<and> store' ! result = getRandomPlantsFromList draw (store ! sourcePlants) count"
  using assms
  by (auto simp: getRandomPlantsFromList_store_def getRandomPlantsFromList_def Let_def nth_append)

text \<open>
  C9. For every list and every count \<open>n\<close> (a natural number), \<open>getRandomPlantsFromList\<close>
  returns a list of length \<open>min n (length sourcePlants)\<close> whose elements are the
  elements at pairwise distinct positions of the input, each position used at most once;
  if the records of the input are pairwise distinct, so are those of the sample, whatever
  their names. On the store of arrays the call writes only to arrays it has allocated:
  every array that existed before, the input among them, is unchanged, and the array
  returned holds the sample.
\<close>

theorem getRandomPlantsFromList_sample:
  "length (getRandomPlantsFromList draw sourcePlants (int n)) = min n (length sourcePlants)
   \<and> (\<exists>positions. distinct positions \<and> set positions \<subseteq> {..<length sourcePlants}
         \<and> getRandomPlantsFromList draw sourcePlants (int n)
             = map (\<lambda>i. sourcePlants ! i) positions)
   \<and> (distinct sourcePlants \<longrightarrow> distinct (getRandomPlantsFromList draw sourcePlants (int n)))
   \<and> (a < length store \<longrightarrow>
         (case getRandomPlantsFromList_store draw a (int n) store of
            (result, store') \<Rightarrow>
              (\<forall>b < length store. store' ! b = store ! b)
              \<and> store' ! result = getRandomPlantsFromList draw (store ! a) (int n)))"
  using length_getRandomPlantsFromList [of draw sourcePlants n]
    getRandomPlantsFromList_positions [of sourcePlants n draw]
    distinct_getRandomPlantsFromList [of sourcePlants draw n]
    getRandomPlantsFromList_store_frame [of a store draw "int n"]
  by (auto split: prod.splits)

theorem getRandomPlantsFromList_sample_witness:
  "distinct [rosa, hera, jiboia] \<and> 0 < length [[rosa, hera, jiboia]]
   \<and> length (getRandomPlantsFromList [2, 0, 1] [rosa, hera, jiboia] (int 2)) = 2
   \<and> distinct (getRandomPlantsFromList [2, 0, 1] [rosa, hera, jiboia] (int 2))
   \<and> (case getRandomPlantsFromList_store [2, 0, 1] 0 (int 2) [[rosa, hera, jiboia]] of
         (result, store') \<Rightarrow>
           store' ! 0 = [rosa, hera, jiboia]
           \<and> store' ! result = getRandomPlantsFromList [2, 0, 1] [rosa, hera, jiboia] (int 2))"
proof -
  have d: "distinct [rosa, hera, jiboia]"
    by (simp add: rosa_def hera_def jiboia_def)
  show ?thesis
    using d getRandomPlantsFromList_sample [where draw = "[2, 0, 1]"
        and sourcePlants = "[rosa, hera, jiboia]" and n = 2 and a = 0
        and store = "[[rosa, hera, jiboia]]"]
    by (auto split: prod.splits)
qed

subsection \<open>Quiz generation\<close>

lemma count_list_distinct: "distinct xs \<Longrightarrow> x \<in> set xs \<Longrightarrow> count_list xs x = 1"
  by (induction xs) (auto simp: count_list_0_iff)

lemma index_zero: "xs \<noteq> [] \<Longrightarrow> index xs 0 = Some (xs ! 0)"
  by (simp add: index_def)

lemma sample_numeral:
  "getRandomPlantsFromList draw xs 1 = take 1 (sortRandom draw xs)"
  "getRandomPlantsFromList draw xs 2 = take 2 (sortRandom draw xs)"
  "getRandomPlantsFromList draw xs 4 = take 4 (sortRandom draw xs)"
  using getRandomPlantsFromList_take [of draw xs 1] getRandomPlantsFromList_take [of draw xs 2]
    getRandomPlantsFromList_take [of draw xs 4]
  by simp_all

lemma sortRandom_Nil [simp]: "sortRandom draw xs = [] \<longleftrightarrow> xs = []"
  using length_sortRandom [of draw xs] by (metis length_0_conv)

lemma sample_nonempty:
  assumes "xs \<noteq> []"
  shows "getRandomPlantsFromList draw xs 1 \<noteq> []" "getRandomPlantsFromList draw xs 4 \<noteq> []"
  using assms by (simp_all add: sample_numeral)

lemma sample_names_distinct:
  assumes "distinct (map commonName plantList)"
  shows "distinct (map commonName (getRandomPlantsFromList draw plantList (int n)))"
proof -
  have "map commonName (getRandomPlantsFromList draw plantList (int n))
      = take n (sortRandom draw (map commonName plantList))"
    by (simp add: getRandomPlantsFromList_take take_map map_sortRandom [symmetric])
  then show ?thesis using assms by (simp add: distinct_sortRandom)
qed

text \<open>A question made of a sample: the names of the sample in random order.\<close>

lemma name_options:
  fixes plantList :: "Plant list" and d d' :: "nat list"
  assumes "4 \<le> length plantList" and "distinct (map commonName plantList)"
  defines "sample \<equiv> getRandomPlantsFromList d plantList 4"
  shows "length (sortRandom d' (map commonName sample)) = 4"
    and "count_list (sortRandom d' (map commonName sample)) (commonName (sample ! 0)) = 1"
proof -
  have len: "length sample = 4"
    using assms(1) by (simp add: sample_def sample_numeral)
  then show "length (sortRandom d' (map commonName sample)) = 4" by simp
  have "distinct (map commonName sample)"
    unfolding sample_def using sample_names_distinct [OF assms(2), of d 4] by simp
  then have "distinct (sortRandom d' (map commonName sample))"
    by (rule distinct_sortRandom)
  moreover have "commonName (sample ! 0) \<in> set (sortRandom d' (map commonName sample))"
    using len by (cases sample) auto
  ultimately show "count_list (sortRandom d' (map commonName sample)) (commonName (sample ! 0)) = 1"
    by (rule count_list_distinct)
qed

lemma light_options:
  "length (sortRandom d [lightValue FULL_SUN, lightValue PARTIAL_SHADE, lightValue SHADE]) = 3"
  "count_list (sortRandom d [lightValue FULL_SUN, lightValue PARTIAL_SHADE, lightValue SHADE])
     (lightValue l) = 1"
proof -
  let ?ls = "[lightValue FULL_SUN, lightValue PARTIAL_SHADE, lightValue SHADE]"
  show "length (sortRandom d ?ls) = 3" by simp
  have "distinct ?ls" by simp
  then have "distinct (sortRandom d ?ls)" by (rule distinct_sortRandom)
  moreover have "lightValue l \<in> set (sortRandom d ?ls)" by (cases l) simp_all
  ultimately show "count_list (sortRandom d ?ls) (lightValue l) = 1"
    by (rule count_list_distinct)
qed

text \<open>
  C4, as amended. Whenever the catalog is not empty, \<open>generateDailyQuiz\<close> returns three
  questions of the three types, and the options of the COMMON_TO_LIGHT question are the
  three light-requirement values, each exactly once, the correct answer being one of
  them. When the catalog has at least four plants and no two plants of the catalog share
  a common name, the SCIENTIFIC_TO_COMMON and the PHOTO_TO_COMMON question each have
  exactly 4 options, of which exactly one equals the correct answer.
\<close>

theorem generateDailyQuiz_options:
  assumes "plantList \<noteq> []"
  shows "\<exists>q1 q2 q3. generateDailyQuiz d1 d2 d3 d4 d5 d6 plantList = Inr [q1, q2, q3]
     \<and> type_q q1 = SCIENTIFIC_TO_COMMON \<and> type_q q2 = COMMON_TO_LIGHT
     \<and> type_q q3 = PHOTO_TO_COMMON
     \<and> length (options q2) = 3
     \<and> (\<forall>l. count_list (options q2) (lightValue l) = 1)
     \<and> count_list (options q2) (correctAnswer q2) = 1
     \<and> (4 \<le> length plantList \<and> distinct (map commonName plantList) \<longrightarrow>
          length (options q1) = 4 \<and> count_list (options q1) (correctAnswer q1) = 1
          \<and> length (options q3) = 4 \<and> count_list (options q3) (correctAnswer q3) = 1)"
proof -
  let ?s1 = "getRandomPlantsFromList d1 plantList 4"
  let ?s2 = "getRandomPlantsFromList d2 plantList 1"
  let ?s3 = "getRandomPlantsFromList d3 plantList 4"
  have ne: "?s1 \<noteq> []" "?s2 \<noteq> []" "?s3 \<noteq> []"
    using assms by (simp_all add: sample_nonempty)
  have i: "index ?s1 0 = Some (?s1 ! 0)" "index ?s2 0 = Some (?s2 ! 0)"
    "index ?s3 0 = Some (?s3 ! 0)"
    using ne by (simp_all add: index_zero)
  show ?thesis
    using i light_options name_options [where plantList = plantList and d = d1 and d' = d4]
      name_options [where plantList = plantList and d = d3 and d' = d6]
    by (auto simp: generateDailyQuiz_def Let_def)
qed

theorem generateDailyQuiz_options_witness:
  "catalog4 \<noteq> [] \<and> 4 \<le> length catalog4 \<and> distinct (map commonName catalog4)
   \<and> (\<exists>q1 q2 q3.
         generateDailyQuiz [0, 1, 2, 3] [3, 0, 2, 1] [0, 1, 2, 3] [3, 0, 2, 1] [1, 2, 0]
           [0, 1, 2, 3] catalog4 = Inr [q1, q2, q3]
         \<and> length (options q2) = 3
         \<and> (\<forall>l. count_list (options q2) (lightValue l) = 1)
         \<and> count_list (options q2) (correctAnswer q2) = 1
         \<and> length (options q1) = 4 \<and> count_list (options q1) (correctAnswer q1) = 1
         \<and> length (options q3) = 4 \<and> count_list (options q3) (correctAnswer q3) = 1)"
proof -
  have a: "catalog4 \<noteq> []" and b: "4 \<le> length catalog4"
    and c: "distinct (map commonName catalog4)"
    by (simp_all add: catalog4_def rosa_def hera_def jiboia_def lirio_def)
  show ?thesis
    using a b c generateDailyQuiz_options [OF a, where ?d1.0 = "[0, 1, 2, 3]"
        and ?d2.0 = "[3, 0, 2, 1]" and ?d3.0 = "[0, 1, 2, 3]" and ?d4.0 = "[3, 0, 2, 1]"
        and ?d5.0 = "[1, 2, 0]" and ?d6.0 = "[0, 1, 2, 3]"]
    by blast
qed

text \<open>
  The claim without the two conditions fails: with two plants of one name in the sample
  the correct answer is twice among the options, and a catalog of one plant gives a name
  question of one option.
\<close>

theorem generateDailyQuiz_options_counterexample:
  "map_sum id (map options)
     (generateDailyQuiz [0, 1, 2, 3] [3, 0, 2, 1] [0, 1, 2, 3] [3, 0, 2, 1] [1, 2, 0] [0, 1, 2, 3]
        catalogDup)
     = Inr [[''Jiboia'', ''Rosa'', ''Hera'', ''Rosa''],
            [''Meia-sombra'', ''Sombra'', ''Sol pleno''],
            [''Rosa'', ''Rosa'', ''Hera'', ''Jiboia'']]
   \<and> map_sum id (map correctAnswer)
     (generateDailyQuiz [0, 1, 2, 3] [3, 0, 2, 1] [0, 1, 2, 3] [3, 0, 2, 1] [1, 2, 0] [0, 1, 2, 3]
        catalogDup)
     = Inr [''Rosa'', ''Meia-sombra'', ''Rosa'']
   \<and> count_list [''Jiboia'', ''Rosa'', ''Hera'', ''Rosa''] ''Rosa'' = 2
   \<and> map_sum id (map options) (generateDailyQuiz [0] [0] [0] [0] [1, 2, 0] [0] [rosa])
     = Inr [[''Rosa''], [''Meia-sombra'', ''Sombra'', ''Sol pleno''], [''Rosa'']]"
  by (simp add: generateDailyQuiz_def sample_numeral sortRandom_def isPermutation_def
      index_def Let_def catalogDup_def rosa_def rosaMini_def hera_def jiboia_def)

subsection \<open>Quiz completion\<close>

lemma index_Some: "i < length xs \<Longrightarrow> index xs i = Some (xs ! i)"
  by (simp add: index_def)

lemma finishQuiz_result:
  assumes "getInitialProgress (storage_q st) = Inr p"
    and "currentQIndex st < length (questions st)"
  shows "finishQuiz now st =
     Inr (st\<lparr>isFinished_q := True,
             storage_q := saveProgress (storage_q st)
               (p\<lparr>quizTotalQuestions := quizTotalQuestions p + 3,
                  quizCorrectAnswers := quizCorrectAnswers p + score_q st,
                  history := history p
                    @ [\<lparr>date = isoDate now, type = QUIZ, score = Some (score_q st)\<rparr>]\<rparr>)\<rparr>)"
  using assms by (simp add: finishQuiz_def index_Some Let_def)

text \<open>
  C8. Quiz completion leaves the streak-related state untouched: whatever progress
  record \<open>p\<close> is stored, \<open>finishQuiz\<close> (on a question that exists) returns, and the record
  that is in the store afterwards has the \<open>streakDays\<close>, the \<open>lastStudyDate\<close> and the
  \<open>plantsStudiedCount\<close> of \<open>p\<close>; \<open>quizTotalQuestions\<close> has grown by 3,
  \<open>quizCorrectAnswers\<close> by the score, and the history by one QUIZ entry.
\<close>

theorem finishQuiz_frame:
  assumes "getInitialProgress (storage_q st) = Inr p"
    and "currentQIndex st < length (questions st)"
  shows "\<exists>st' p'. finishQuiz now st = Inr st'
     \<and> getInitialProgress (storage_q st') = Inr p'
     \<and> streakDays p' = streakDays p
     \<and> lastStudyDate p' = lastStudyDate p
     \<and> plantsStudiedCount p' = plantsStudiedCount p
     \<and> quizTotalQuestions p' = quizTotalQuestions p + 3
     \<and> quizCorrectAnswers p' = quizCorrectAnswers p + score_q st
     \<and> history p' = history p
           @ [\<lparr>date = isoDate now, type = QUIZ, score = Some (score_q st)\<rparr>]"
  using assms by (simp add: finishQuiz_result getInitialProgress_saveProgress)

theorem finishQuiz_frame_witness:
  "\<exists>st' p'. finishQuiz 1728003600000
       \<lparr>questions = [sampleQuestion, sampleQuestion, sampleQuestion], currentQIndex = 2,
        score_q = 2, isFinished_q = False, selectedOption = Some ''Hera'', isAnswered = True,
        storage_q = Map.empty\<rparr> = Inr st'
     \<and> getInitialProgress (storage_q st') = Inr p'
     \<and> streakDays p' = streakDays initialProgress
     \<and> lastStudyDate p' = lastStudyDate initialProgress
     \<and> plantsStudiedCount p' = plantsStudiedCount initialProgress
     \<and> quizTotalQuestions p' = quizTotalQuestions initialProgress + 3
     \<and> quizCorrectAnswers p' = quizCorrectAnswers initialProgress + 2
     \<and> history p' = history initialProgress
           @ [\<lparr>date = isoDate 1728003600000, type = QUIZ, score = Some 2\<rparr>]"
  using finishQuiz_frame [of "\<lparr>questions = [sampleQuestion, sampleQuestion, sampleQuestion],
      currentQIndex = 2, score_q = 2, isFinished_q = False, selectedOption = Some ''Hera'',
      isAnswered = True, storage_q = Map.empty\<rparr>" initialProgress 1728003600000]
  by (simp add: getInitialProgress_empty)

lemma handleAnswer_correct:
  assumes "\<not> isAnswered st" and "index (questions st) (currentQIndex st) = Some q"
  shows "handleAnswer (correctAnswer q) st =
     Inr (st\<lparr>selectedOption := Some (correctAnswer q), isAnswered := True,
             score_q := score_q st + 1\<rparr>)"
  using assms by (simp add: handleAnswer_def)

text \<open>
  C3. A quiz in which all three questions are answered correctly: after the six clicks
  (answer, next, answer, next, answer, see the result) the quiz is finished and the
  record in the store is the previous one with \<open>quizCorrectAnswers\<close> plus 3,
  \<open>quizTotalQuestions\<close> plus 3 and one more history entry, a QUIZ entry of score 3. The
  score that is saved counts the third answer.
\<close>

theorem quiz_all_correct:
  assumes "getInitialProgress ls = Inr p"
  shows "\<exists>st'. quizRun
        [(t1, Answer (correctAnswer q1)), (t2, Next),
         (t3, Answer (correctAnswer q2)), (t4, Next),
         (t5, Answer (correctAnswer q3)), (t6, Next)]
        \<lparr>questions = [q1, q2, q3], currentQIndex = 0, score_q = 0, isFinished_q = False,
         selectedOption = None, isAnswered = False, storage_q = ls\<rparr> = Inr st'
     \<and> isFinished_q st'
     \<and> getInitialProgress (storage_q st') =
         Inr (p\<lparr>quizTotalQuestions := quizTotalQuestions p + 3,
                quizCorrectAnswers := quizCorrectAnswers p + 3,
                history := history p @ [\<lparr>date = isoDate t6, type = QUIZ, score = Some 3\<rparr>]\<rparr>)"
  using assms
  by (simp add: quizStep_def handleAnswer_def nextQuestion_def finishQuiz_def index_def
      Let_def getInitialProgress_saveProgress)

theorem quiz_all_correct_witness:
  "getInitialProgress Map.empty = Inr initialProgress
   \<and> (\<exists>st'. quizRun
        [(1728003600000, Answer (correctAnswer sampleQuestion)), (1728003605000, Next),
         (1728003610000, Answer (correctAnswer sampleQuestion)), (1728003615000, Next),
         (1728003620000, Answer (correctAnswer sampleQuestion)), (1728003625000, Next)]
        \<lparr>questions = [sampleQuestion, sampleQuestion, sampleQuestion], currentQIndex = 0,
         score_q = 0, isFinished_q = False, selectedOption = None, isAnswered = False,
         storage_q = Map.empty\<rparr> = Inr st'
     \<and> isFinished_q st'
     \<and> getInitialProgress (storage_q st') =
         Inr (initialProgress
               \<lparr>quizTotalQuestions := quizTotalQuestions initialProgress + 3,
                quizCorrectAnswers := quizCorrectAnswers initialProgress + 3,
                history := history initialProgress
                  @ [\<lparr>date = isoDate 1728003625000, type = QUIZ, score = Some 3\<rparr>]\<rparr>))"
  by (intro conjI getInitialProgress_empty quiz_all_correct [OF getInitialProgress_empty])

subsection \<open>Catalog merge\<close>

lemma length_mergePlants [simp]: "length (mergePlants db images) = length db"
  by (simp add: mergePlants_def)











subsection \<open>Cycle completion\<close>

lemma streakCheck_first: "lastStudyDate p = None \<Longrightarrow> streakCheck now p = 1"
  by (simp add: streakCheck_def Let_def)

lemma streakCheck_one_day:
  assumes "lastStudyDate p = Some d" and "d \<noteq> []" and "parseDate d = Some t"
    and "- ((- \<bar>now - t\<bar>) div msPerDay) = 1"
  shows "streakCheck now p = streakDays p + 1"
  using assms by (simp add: streakCheck_def Let_def)

lemma streakCheck_reset:
  assumes "lastStudyDate p = Some d" and "d \<noteq> []" and "parseDate d = Some t"
    and "- ((- \<bar>now - t\<bar>) div msPerDay) > 1" and "isoDate now \<noteq> d"
  shows "streakCheck now p = 1"
  using assms by (simp add: streakCheck_def Let_def)

lemma streakCheck_zero_days:
  assumes "lastStudyDate p = Some d" and "d \<noteq> []" and "parseDate d = Some t"
    and "now = t"
  shows "streakCheck now p = streakDays p"
  using assms by (simp add: streakCheck_def Let_def msPerDay_def)

lemma runEffects_stable:
  "lastDeps st = Some (isActive st, timeLeft st) \<Longrightarrow> runEffects clock k st = Inr st"
  by (simp add: runEffects.simps)

lemma runEffects_step:
  "lastDeps st \<noteq> Some (isActive st, timeLeft st) \<Longrightarrow>
   runEffects clock k st =
     (case timerEffect (clock k) (st\<lparr>lastDeps := Some (isActive st, timeLeft st)\<rparr>) of
        Inl e \<Rightarrow> Inl e
      | Inr st' \<Rightarrow> runEffects clock (Suc k) st')"
  by (subst runEffects.simps) simp

lemma mountCycle_active:
  assumes "plantList \<noteq> []"
  shows "mountCycle clock draw plantList ls =
     Inr (activeCycle 180 (getRandomPlantsFromList draw plantList 2) ls)"
  using assms
  by (simp add: mountCycle_def timerEffect_def initialCycle_def Let_def activeCycle_def runEffects_stable runEffects_step)

lemma tick_active:
  assumes "1 < n"
  shows "cycleStep clock Tick (activeCycle n sel ls) = Inr (activeCycle (n - 1) sel ls)"
  using assms
  by (simp add: cycleStep_def activeCycle_def timerEffect_def Let_def runEffects_stable runEffects_step)

lemma ticks_active:
  "int k < n \<Longrightarrow> cycleRun (replicate k (clock, Tick)) (activeCycle n sel ls)
     = Inr (activeCycle (n - int k) sel ls)"
proof (induction k arbitrary: n)
  case 0
  then show ?case by simp
next
  case (Suc k)
  then have "1 < n" "int k < n - 1" by simp_all
  then show ?case using Suc.IH [of "n - 1"] by (simp add: tick_active diff_diff_eq)
qed

lemma last_tick:
  assumes "getInitialProgress ls = Inr p"
  shows "cycleStep clock Tick (activeCycle 1 sel ls) =
     Inr \<lparr>sessionPlants = sel, currentIndex = 0, showDetails = False, timeLeft = 0,
          isActive = False, isFinished = True,
          storage_c = saveProgress (saveProgress ls (newProgress (clock 0) sel p))
            (newProgress (clock 1) sel (newProgress (clock 0) sel p)),
          interval = False, lastDeps = Some (False, 0)\<rparr>"
  using assms
  by (simp add: cycleStep_def activeCycle_def timerEffect_def handleFinish_def Let_def
      getInitialProgress_saveProgress runEffects_stable runEffects_step)

lemma manual_finish:
  assumes "getInitialProgress ls = Inr p" and "1 < n" and "sel \<noteq> []"
  shows "cycleStep clock Finish ((activeCycle n sel ls)\<lparr>currentIndex := length sel - 1\<rparr>) =
     Inr \<lparr>sessionPlants = sel, currentIndex = length sel - 1, showDetails = False, timeLeft = n,
          isActive = False, isFinished = True,
          storage_c = saveProgress ls (newProgress (clock 0) sel p),
          interval = False, lastDeps = Some (False, n)\<rparr>"
  using assms
  by (simp add: cycleStep_def activeCycle_def timerEffect_def handleFinish_def Let_def
      getInitialProgress_saveProgress runEffects_stable runEffects_step)

lemma replicate_180: "replicate 180 x = replicate 179 x @ [x]"
proof -
  have e: "(180::nat) = Suc 179" by simp
  show ?thesis unfolding e by (simp only: replicate_append_same replicate_Suc)
qed

lemma cycleRun_append:
  "cycleRun (evs @ evs') st =
     (case cycleRun evs st of Inl e \<Rightarrow> Inl e | Inr st' \<Rightarrow> cycleRun evs' st')"
  by (induction evs arbitrary: st) (auto split: sum.splits)

lemma isoDate_oct4: "isoDate 1728003600000 = ''2024-10-04''"
  by code_simp

lemma isoDate_oct5: "isoDate 1728122400000 = ''2024-10-05''"
  by code_simp

lemma streakCheck_oct4: "streakCheck 1728003600000 studiedOct4 = 6"
  by code_simp

lemma streakCheck_oct5: "streakCheck 1728122400000 studiedOct4 = 1"
  by code_simp

text \<open>
  C1. The claim is the three-case rule for the streak, the last case being that a
  completion on the calendar day of the stored last date leaves the streak unchanged.
  The first three cases hold (lemmas \<open>streakCheck_first\<close>, \<open>streakCheck_one_day\<close>,
  \<open>streakCheck_reset\<close>). The last one does not: the stored date is midnight of its day,
  so a later completion on that day has an elapsed time between 0 and 24 hours, which
  \<open>Math.ceil\<close> turns into \<open>diffDays = 1\<close>: the streak goes from 5 to 6 on
  2024-10-04 at 01:00 UTC with last date 2024-10-04. For the same reason a completion on
  the next day, at 10:00 UTC on 2024-10-05, has \<open>diffDays = 2\<close> and resets the streak
  to 1. Only a completion at the very instant of midnight is left unchanged (lemma
  \<open>streakCheck_zero_days\<close>).
\<close>

theorem handleFinish_same_day_streak:
  "isoDate 1728003600000 = ''2024-10-04''
   \<and> lastStudyDate studiedOct4 = Some ''2024-10-04'' \<and> streakDays studiedOct4 = 5
   \<and> (\<exists>st p. handleFinish 1728003600000
                  (activeCycle 120 [rosa, hera] (saveProgress Map.empty studiedOct4)) = Inr st
          \<and> getInitialProgress (storage_c st) = Inr p
          \<and> lastStudyDate p = Some ''2024-10-04''
          \<and> streakDays p = 6)
   \<and> isoDate 1728122400000 = ''2024-10-05''
   \<and> (\<exists>st p. handleFinish 1728122400000
                  (activeCycle 120 [rosa, hera] (saveProgress Map.empty studiedOct4)) = Inr st
          \<and> getInitialProgress (storage_c st) = Inr p
          \<and> lastStudyDate p = Some ''2024-10-05''
          \<and> streakDays p = 1)"
  by (simp add: isoDate_oct4 isoDate_oct5 streakCheck_oct4 streakCheck_oct5 handleFinish_def
      activeCycle_def getInitialProgress_saveProgress newProgress_def)
     (simp add: studiedOct4_def)

text \<open>
  C2. The claim is that one cycle session updates the progress record exactly once. On a
  fresh store, a session of two plants whose countdown runs out after 180 ticks without
  any click is recorded twice: the effect that calls \<open>handleFinish\<close> at \<open>timeLeft = 0\<close>
  depends on \<open>isActive\<close>, which \<open>handleFinish\<close> sets to false, so the effect runs once
  more with \<open>timeLeft\<close> still 0. The studied-count is 4 and the history has two CYCLE
  entries. (A click on \<open>Finalizar\<close> records once: lemma \<open>manual_finish\<close>.)
\<close>

theorem cycle_expiry_records_twice:
  "\<exists>st0 st p.
     mountCycle clock0 draw [rosa, hera] Map.empty = Inr st0
     \<and> cycleRun (replicate 180 (clock, Tick)) st0 = Inr st
     \<and> isFinished st
     \<and> length (sessionPlants st) = 2
     \<and> getInitialProgress (storage_c st) = Inr p
     \<and> plantsStudiedCount p = 4
     \<and> history p = [\<lparr>date = isoDate (clock 0), type = CYCLE, score = None\<rparr>,
                     \<lparr>date = isoDate (clock 1), type = CYCLE, score = None\<rparr>]"
proof -
  let ?sel = "getRandomPlantsFromList draw [rosa, hera] 2"
  have len: "length ?sel = 2" by (simp add: sample_numeral)
  have mount: "mountCycle clock0 draw [rosa, hera] Map.empty = Inr (activeCycle 180 ?sel Map.empty)"
    by (rule mountCycle_active) simp
  have "cycleRun (replicate 179 (clock, Tick)) (activeCycle 180 ?sel Map.empty)
      = Inr (activeCycle 1 ?sel Map.empty)"
    using ticks_active [of 179 180 clock ?sel Map.empty] by simp
  then show ?thesis
    using len
    by (simp add: mount replicate_180 cycleRun_append last_tick [OF getInitialProgress_empty]
        getInitialProgress_saveProgress newProgress_def initialProgress_def)
qed

subsection \<open>Floating-point rounding\<close>

lemma rnd_error:
  assumes "roundsToNearest rnd" and "1 / 2 ^ 1022 \<le> \<bar>x\<bar>" and "\<bar>x\<bar> \<le> 2 ^ 1023"
  shows "\<bar>rnd x - x\<bar> \<le> \<bar>x\<bar> / 2 ^ 53"
  using assms by (simp add: roundsToNearest_def)

lemma rnd_nat:
  assumes "roundsToNearest rnd" and "n \<le> 2 ^ 53"
  shows "rnd (of_nat n) = of_nat n"
  using assms by (simp add: roundsToNearest_def)

lemma rnd_zero: "roundsToNearest rnd \<Longrightarrow> rnd 0 = 0"
  using rnd_nat [of rnd 0] by simp

lemma rnd_one: "roundsToNearest rnd \<Longrightarrow> rnd 1 = 1"
  using rnd_nat [of rnd 1] by simp

lemma relative_bounds:
  fixes x e r :: rat
  assumes "\<bar>r - x\<bar> \<le> x * e"
  shows "x * (1 - e) \<le> r" and "r \<le> x * (1 + e)"
  using assms by (simp_all add: abs_le_iff algebra_simps)

text \<open>Rounding a positive number of the normal range: the result is within the relative error.\<close>

lemma rnd_pos:
  assumes r: "roundsToNearest rnd" and lo: "1 / 2 ^ 1022 \<le> x" and hi: "x \<le> 2 ^ 1023"
  shows "x * (1 - 1 / 2 ^ 53) \<le> rnd x" and "rnd x \<le> x * (1 + 1 / 2 ^ 53)"
proof -
  have "(0::rat) < 1 / 2 ^ 1022" by simp
  from this lo have pos: "0 < x" by (rule less_le_trans)
  then have "\<bar>rnd x - x\<bar> \<le> x / 2 ^ 53"
    using rnd_error [OF r, of x] lo hi by simp
  then have e: "\<bar>rnd x - x\<bar> \<le> x * (1 / 2 ^ 53)"
    by (simp only: times_divide_eq_right mult_1_right)
  show "x * (1 - 1 / 2 ^ 53) \<le> rnd x" and "rnd x \<le> x * (1 + 1 / 2 ^ 53)"
    using relative_bounds [OF e] by blast+
qed

lemma setDimension_nat:
  assumes "n < 2 ^ 24"
  shows "setDimension dflt (Finite (of_nat n)) = n"
proof -
  have "int n mod 2 ^ 32 = int n" using assms by simp
  moreover have "n \<le> 2147483647" using assms by simp
  ultimately show ?thesis
    by (simp add: setDimension_def toUnsignedLong_def Let_def)
qed

lemma setDimension_floor:
  assumes "0 \<le> y" and "y < 2 ^ 24"
  shows "setDimension dflt (Finite y) = nat \<lfloor>y\<rfloor>"
proof -
  have f0: "0 \<le> \<lfloor>y\<rfloor>" using assms(1) by simp
  have f1: "\<lfloor>y\<rfloor> < 2 ^ 24" using assms(2) by (simp add: floor_less_iff)
  have p: "(2::int) ^ 24 = 16777216" "(2::int) ^ 32 = 4294967296" by simp_all
  have "\<lfloor>y\<rfloor> mod 2 ^ 32 = \<lfloor>y\<rfloor>"
    using f0 f1 unfolding p by (intro mod_pos_pos_trivial) linarith+
  moreover have "nat \<lfloor>y\<rfloor> \<le> 2147483647" using f0 f1 unfolding p by linarith
  ultimately show ?thesis
    using assms(1) by (simp add: setDimension_def toUnsignedLong_def Let_def)
qed

text \<open>Two roundings in a row move a bounded non-negative number by little.\<close>

lemma two_roundings:
  fixes x y u B :: rat
  assumes x: "0 \<le> x" "x \<le> B" and u: "0 \<le> u" "u \<le> 1"
    and lo: "x * (1 - u) * (1 - u) \<le> y" and hi: "y \<le> x * (1 + u) * (1 + u)"
  shows "\<bar>y - x\<bar> \<le> 3 * (u * B)"
proof -
  define a where "a = u * x"
  define b where "b = u * (u * x)"
  have a0: "0 \<le> a" unfolding a_def using x(1) u(1) by simp
  have b0: "0 \<le> b" unfolding b_def using x(1) u(1) by simp
  have ba: "b \<le> a" unfolding a_def b_def
    using mult_left_le_one_le [of "u * x" u] x(1) u by (simp add: mult.commute)
  have aB: "a \<le> u * B" unfolding a_def using x(2) u(1) by (rule mult_left_mono)
  have e1: "x * (1 + u) * (1 + u) = x + 2 * a + b"
    unfolding a_def b_def by (simp add: algebra_simps)
  have e2: "x * (1 - u) * (1 - u) = x - 2 * a + b"
    unfolding a_def b_def by (simp add: algebra_simps)
  show ?thesis using lo hi a0 b0 ba aB unfolding e1 e2 by linarith
qed

text \<open>A natural number beside a fraction with denominator \<open>W\<close> is at least \<open>1/W\<close> away from it, or equal to it.\<close>

lemma nat_above_fraction:
  fixes n k W :: nat
  assumes "0 < W" and "of_nat k / of_nat W < (of_nat n :: rat)"
  shows "of_nat k / of_nat W + 1 / of_nat W \<le> (of_nat n :: rat)"
proof -
  have w: "(0::rat) < of_nat W" using assms(1) by simp
  have "(of_nat k :: rat) < of_nat n * of_nat W"
    using assms(2) w by (simp add: pos_divide_less_eq)
  then have "(of_nat k :: rat) < of_nat (n * W)" by simp
  then have "k < n * W" by (simp only: of_nat_less_iff)
  then have "k + 1 \<le> n * W" by simp
  then have "(of_nat (k + 1) :: rat) \<le> of_nat (n * W)" by (simp only: of_nat_le_iff)
  then have "(of_nat k + 1 :: rat) \<le> of_nat n * of_nat W" by simp
  then have "(of_nat k + 1) / of_nat W \<le> (of_nat n :: rat)"
    using w by (simp add: pos_divide_le_eq)
  then show ?thesis by (simp add: add_divide_distrib)
qed

lemma nat_below_fraction:
  fixes n k W :: nat
  assumes "0 < W" and "(of_nat n :: rat) < of_nat k / of_nat W"
  shows "(of_nat n :: rat) + 1 / of_nat W \<le> of_nat k / of_nat W"
proof -
  have w: "(0::rat) < of_nat W" using assms(1) by simp
  have "(of_nat n :: rat) * of_nat W < of_nat k"
    using assms(2) w by (simp add: pos_less_divide_eq)
  then have "(of_nat (n * W) :: rat) < of_nat k" by simp
  then have "n * W < k" by (simp only: of_nat_less_iff)
  then have "n * W + 1 \<le> k" by simp
  then have "(of_nat (n * W + 1) :: rat) \<le> of_nat k" by (simp only: of_nat_le_iff)
  then have "(of_nat n * of_nat W + 1 :: rat) \<le> of_nat k" by simp
  then have "(of_nat n * of_nat W + 1) / of_nat W \<le> (of_nat k :: rat) / of_nat W"
    using w by (simp add: divide_le_cancel)
  moreover have "(of_nat n * of_nat W + 1) / of_nat W = (of_nat n :: rat) + 1 / of_nat W"
    using w by (simp add: add_divide_distrib)
  ultimately show ?thesis by simp
qed

lemma small_numbers:
  "(1::rat) / 2 ^ 1022 \<le> 300 / 2 ^ 24" "(2::rat) ^ 24 \<le> 2 ^ 1023"
  "(600 / 601) * (1 + 1 / 2 ^ 53) < (1::rat)" "(1::rat) / 2 \<le> 1 - 1 / 2 ^ 53"
  "3 * (1 / 2 ^ 53 * 2 ^ 24) < (1::rat) / 2 ^ 24" "(0::rat) \<le> 1 / 2 ^ 53" "(1::rat) / 2 ^ 53 \<le> 1"
  "(1::rat) \<le> (600 / 599) * (1 - 1 / 2 ^ 53)" "(600::rat) \<le> 2 ^ 1023"
  "(1::rat) / 2 ^ 1022 \<le> 1"
  by simp_all

lemma canvasSize_wide:
  assumes r: "roundsToNearest rnd" and W: "600 < W" "W < 2 ^ 24" and H: "H < 2 ^ 24"
  shows "\<exists>n. canvasSize rnd W H = (600, n)
     \<and> (of_nat n :: rat) \<le> of_nat (600 * H) / of_nat W
     \<and> of_nat (600 * H) / of_nat W - 1 \<le> (of_nat n :: rat)"
proof -
  define u :: rat where "u = 1 / 2 ^ 53"
  define w :: rat where "w = of_nat W"
  define h :: rat where "h = of_nat H"
  define s0 :: rat where "s0 = 600 / w"
  define s where "s = rnd s0"
  define t0 where "t0 = s * h"
  define y where "y = rnd t0"
  define x where "x = s0 * h"
  have u0: "0 \<le> u" and u1: "u \<le> 1" and uhalf: "1 / 2 \<le> 1 - u"
    unfolding u_def using small_numbers by simp_all
  have w601: "601 \<le> w"
  proof -
    have "601 \<le> W" using W(1) by simp
    then have "(of_nat 601 :: rat) \<le> of_nat W" by (simp only: of_nat_le_iff)
    then show ?thesis by (simp add: w_def)
  qed
  have wlt: "w < 2 ^ 24"
  proof -
    have "(of_nat W :: rat) < of_nat (2 ^ 24)" using W(2) by (simp only: of_nat_less_iff)
    then show ?thesis by (simp add: w_def)
  qed
  have wpos: "0 < w" using w601 by simp
  have h0: "0 \<le> h" by (simp add: h_def)
  have hlt: "h \<le> 2 ^ 24 - 1"
  proof -
    have "H \<le> 2 ^ 24 - 1" using H by simp
    then have "(of_nat H :: rat) \<le> of_nat (2 ^ 24 - 1)" by (simp only: of_nat_le_iff)
    then show ?thesis by (simp add: h_def)
  qed
  have s0_hi: "s0 \<le> 600 / 601"
    unfolding s0_def using w601 by (intro divide_left_mono) simp_all
  have s0_lo: "600 / 2 ^ 24 \<le> s0"
    unfolding s0_def using wlt wpos by (intro divide_left_mono) simp_all
  have s0_pos: "0 < s0" unfolding s0_def using wpos by simp
  have s0_norm: "1 / 2 ^ 1022 \<le> s0" "s0 \<le> 2 ^ 1023"
    using s0_lo s0_hi small_numbers by simp_all
  have s_lo: "s0 * (1 - u) \<le> s" and s_hi: "s \<le> s0 * (1 + u)"
    unfolding s_def u_def using rnd_pos [OF r s0_norm] by simp_all
  have s_lt1: "s < 1"
  proof -
    have "s0 * (1 + u) \<le> (600 / 601) * (1 + u)"
      using s0_hi u0 by (intro mult_right_mono) simp_all
    also have "\<dots> < 1" unfolding u_def using small_numbers by simp
    finally show ?thesis using s_hi by simp
  qed
  have s_ge: "300 / 2 ^ 24 \<le> s"
  proof -
    have "(600 / 2 ^ 24) * (1 / 2) \<le> s0 * (1 - u)"
      using s0_lo uhalf by (intro mult_mono) simp_all
    then show ?thesis using s_lo by simp
  qed
  have s_pos: "0 < s" using s_ge by simp
  have div: "jsDivide rnd MAX_WIDTH W = Finite s"
    using W(1) by (simp add: jsDivide_def MAX_WIDTH_def s_def s0_def w_def)
  have less: "jsLess (Finite s) 1" using s_lt1 by (simp add: jsLess_def)
  have width: "setDimension 300 (Finite (of_nat MAX_WIDTH)) = 600"
    using setDimension_nat [of 600 300] by (simp add: MAX_WIDTH_def)
  have size: "canvasSize rnd W H = (600, setDimension 150 (Finite y))"
    using div less width
    by (simp add: canvasSize_def Let_def jsTimes_def y_def t0_def h_def)
  have x_eq: "x = of_nat (600 * H) / of_nat W"
    by (simp add: x_def s0_def w_def h_def)
  have x0: "0 \<le> x" unfolding x_def using s0_pos h0 by simp
  have x_le_h: "x \<le> h"
  proof -
    have "s0 * h \<le> 1 * h" using s0_hi h0 by (intro mult_right_mono) simp_all
    then show ?thesis by (simp add: x_def)
  qed
  have xB: "x \<le> 2 ^ 24" using x_le_h hlt by simp
  have both: "\<bar>y - x\<bar> \<le> 3 * (u * 2 ^ 24) \<and> 0 \<le> y"
  proof (cases "H = 0")
    case True
    then show ?thesis
      using rnd_zero [OF r] u0 by (simp add: y_def t0_def h_def x_def)
  next
    case False
    then have "1 \<le> H" by simp
    then have "(of_nat 1 :: rat) \<le> of_nat H" by (simp only: of_nat_le_iff)
    then have h1: "1 \<le> h" by (simp add: h_def)
    have "s * 1 \<le> s * h" using h1 s_pos by (intro mult_left_mono) simp_all
    then have "s \<le> t0" by (simp only: t0_def mult_1_right)
    then have t_lo: "300 / 2 ^ 24 \<le> t0" using s_ge by (rule order_trans [rotated])
    have "s * h \<le> 1 * 2 ^ 24" using s_lt1 hlt s_pos h0 by (intro mult_mono) simp_all
    then have t_hi: "t0 \<le> 2 ^ 24" by (simp only: t0_def mult_1)
    have t_norm: "1 / 2 ^ 1022 \<le> t0" "t0 \<le> 2 ^ 1023"
      using t_lo t_hi small_numbers by simp_all
    have y_lo: "t0 * (1 - u) \<le> y" and y_hi: "y \<le> t0 * (1 + u)"
      unfolding y_def u_def using rnd_pos [OF r t_norm] by simp_all
    have nn: "0 \<le> 1 - u" using u1 by simp
    have "s0 * (1 - u) * (h * (1 - u)) \<le> s * (h * (1 - u))"
      using s_lo h0 nn by (intro mult_right_mono) simp_all
    then have lo: "x * (1 - u) * (1 - u) \<le> y"
      using y_lo by (simp add: x_def t0_def mult.assoc mult.left_commute)
    have "s * (h * (1 + u)) \<le> s0 * (1 + u) * (h * (1 + u))"
      using s_hi h0 u0 by (intro mult_right_mono) simp_all
    then have hi: "y \<le> x * (1 + u) * (1 + u)"
      using y_hi by (simp add: x_def t0_def mult.assoc mult.left_commute)
    have "\<bar>y - x\<bar> \<le> 3 * (u * 2 ^ 24)"
      using x0 xB u0 u1 lo hi by (rule two_roundings)
    moreover have "0 \<le> t0 * (1 - u)" using t_lo nn by simp
    then have "0 \<le> y" using y_lo by simp
    ultimately show ?thesis by simp
  qed
  then have near: "\<bar>y - x\<bar> \<le> 3 * (u * 2 ^ 24)" and y0: "0 \<le> y" by simp_all
  have tiny: "3 * (u * 2 ^ 24) < 1 / 2 ^ 24" unfolding u_def using small_numbers by simp
  have inv_w: "1 / 2 ^ 24 < 1 / w" using wlt wpos by (simp add: frac_less2)
  have gap: "\<bar>y - x\<bar> < 1 / w" using near tiny inv_w by linarith
  have ylt: "y < 2 ^ 24"
  proof -
    have "(1::rat) / 2 ^ 24 \<le> 1" by simp
    then show ?thesis using near tiny x_le_h hlt by linarith
  qed
  define n where "n = nat \<lfloor>y\<rfloor>"
  have dim: "setDimension 150 (Finite y) = n"
    unfolding n_def using y0 ylt by (rule setDimension_floor)
  have fl: "0 \<le> \<lfloor>y\<rfloor>" using y0 by simp
  have n_eq: "(of_nat n :: rat) = of_int \<lfloor>y\<rfloor>" unfolding n_def using fl by simp
  have n_le: "(of_nat n :: rat) \<le> y" and n_gt: "y < of_nat n + 1"
    unfolding n_eq by linarith+
  have upper: "(of_nat n :: rat) \<le> x"
  proof (rule ccontr)
    assume "\<not> (of_nat n :: rat) \<le> x"
    then have "of_nat (600 * H) / of_nat W < (of_nat n :: rat)" using x_eq by simp
    then have "of_nat (600 * H) / of_nat W + 1 / of_nat W \<le> (of_nat n :: rat)"
      using W(1) by (intro nat_above_fraction) simp_all
    then have "x + 1 / w \<le> of_nat n" using x_eq by (simp add: w_def)
    then show False using n_le gap by linarith
  qed
  have lower: "x - 1 \<le> (of_nat n :: rat)"
  proof (rule ccontr)
    assume "\<not> x - 1 \<le> (of_nat n :: rat)"
    then have "(of_nat (n + 1) :: rat) < of_nat (600 * H) / of_nat W" using x_eq by simp
    then have "(of_nat (n + 1) :: rat) + 1 / of_nat W \<le> of_nat (600 * H) / of_nat W"
      using W(1) by (intro nat_below_fraction) simp_all
    then have "of_nat n + 1 + 1 / w \<le> x" using x_eq by (simp add: w_def)
    then show False using n_gt gap by linarith
  qed
  show ?thesis using size dim upper lower x_eq by simp
qed

lemma exact_rounding: "roundsToNearest (\<lambda>x. x)"
  by (simp add: roundsToNearest_def)

subsection \<open>The image codec\<close>

lemma canvasSize_narrow:
  assumes r: "roundsToNearest rnd" and W: "W \<le> 600" and H: "H < 2 ^ 24"
  shows "canvasSize rnd W H = (W, H)"
proof -
  have Wlt: "W < 2 ^ 24" using W by simp
  have dims: "setDimension 300 (Finite (of_nat W)) = W" "setDimension 150 (Finite (of_nat H)) = H"
    using Wlt H by (simp_all add: setDimension_nat)
  have "\<not> jsLess (jsDivide rnd MAX_WIDTH W) 1"
  proof (cases "W = 0")
    case True
    then show ?thesis by (simp add: jsDivide_def jsLess_def MAX_WIDTH_def)
  next
    case False
    define w :: rat where "w = of_nat W"
    define s0 :: rat where "s0 = 600 / w"
    have "1 \<le> W" using False by simp
    then have "(of_nat 1 :: rat) \<le> of_nat W" by (simp only: of_nat_le_iff)
    then have w1: "1 \<le> w" by (simp add: w_def)
    have "(of_nat W :: rat) \<le> of_nat 600" using W by (simp only: of_nat_le_iff)
    then have w600: "w \<le> 600" by (simp add: w_def)
    have wpos: "0 < w" using w1 by simp
    have div: "jsDivide rnd MAX_WIDTH W = Finite (rnd s0)"
      using False by (simp add: jsDivide_def MAX_WIDTH_def s0_def w_def)
    have "1 \<le> rnd s0"
    proof (cases "W = 600")
      case True
      then have "s0 = 1" by (simp add: s0_def w_def)
      then show ?thesis using rnd_one [OF r] by simp
    next
      case False
      then have "W \<le> 599" using W by simp
      then have "(of_nat W :: rat) \<le> of_nat 599" by (simp only: of_nat_le_iff)
      then have w599: "w \<le> 599" by (simp add: w_def)
      have lo: "600 / 599 \<le> s0"
        unfolding s0_def using w599 wpos by (intro divide_left_mono) simp_all
      have hi: "s0 \<le> 600 / 1"
        unfolding s0_def using w1 by (intro divide_left_mono) simp_all
      have norm: "1 / 2 ^ 1022 \<le> s0" "s0 \<le> 2 ^ 1023"
        using lo hi small_numbers by simp_all
      have "(600 / 599) * (1 - 1 / 2 ^ 53) \<le> s0 * (1 - 1 / 2 ^ 53)"
        using lo small_numbers by (intro mult_right_mono) simp_all
      then show ?thesis
        using rnd_pos(1) [OF r norm] small_numbers(8) by linarith
    qed
    then show ?thesis using div by (simp add: jsLess_def)
  qed
  then show ?thesis using dims by (simp add: canvasSize_def Let_def)
qed

lemma compressImage_canvas:
  assumes "decoded file = Some (width, height)"
  shows "compressImage rnd file =
     Inr (''data:'' @ encoded file (fst (canvasSize rnd width height))
                                   (snd (canvasSize rnd width height)))"
  using assms by (simp add: compressImage_def split: prod.splits)

lemma canvasSize_resize:
  assumes "roundsToNearest rnd" and "width < 2 ^ 24" and "height < 2 ^ 24"
  shows "(600 < width \<longrightarrow>
           (\<exists>h. canvasSize rnd width height = (600, h)
              \<and> (of_nat h :: rat) \<le> of_nat height * (600 / of_nat width)
              \<and> of_nat height * (600 / of_nat width) - 1 \<le> (of_nat h :: rat)))
     \<and> (width \<le> 600 \<longrightarrow> canvasSize rnd width height = (width, height))"
proof (intro conjI impI)
  assume "600 < width"
  then obtain n where "canvasSize rnd width height = (600, n)"
    and "(of_nat n :: rat) \<le> of_nat (600 * height) / of_nat width"
    and "of_nat (600 * height) / of_nat width - 1 \<le> (of_nat n :: rat)"
    using canvasSize_wide [OF assms(1) _ assms(2,3)] by blast
  then show "\<exists>h. canvasSize rnd width height = (600, h)
      \<and> (of_nat h :: rat) \<le> of_nat height * (600 / of_nat width)
      \<and> of_nat height * (600 / of_nat width) - 1 \<le> (of_nat h :: rat)"
    by (auto simp: mult.commute)
next
  assume "width \<le> 600"
  then show "canvasSize rnd width height = (width, height)"
    using assms(1,3) by (intro canvasSize_narrow)
qed

text \<open>
  C6. The resize rule of the image codec, for a file that decodes to an image of \<open>width\<close>
  by \<open>height\<close> pixels (both below \<open>2^24\<close>) and floating-point arithmetic that rounds to
  nearest. If the width is greater than 600, \<open>compressImage\<close> returns the encoding of a
  canvas that is 600 wide and whose height \<open>h\<close> is \<open>height * (600 / width)\<close> within
  rounding, that is, not above that number and at most 1 below it. If the width is at
  most 600, it returns the encoding of a canvas with the dimensions of the input.
\<close>

theorem compressImage_resize:
  assumes "roundsToNearest rnd" and "decoded file = Some (width, height)"
    and "width < 2 ^ 24" and "height < 2 ^ 24"
  shows "(600 < width \<longrightarrow>
           (\<exists>h. canvasSize rnd width height = (600, h)
              \<and> compressImage rnd file = Inr (''data:'' @ encoded file 600 h)
              \<and> (of_nat h :: rat) \<le> of_nat height * (600 / of_nat width)
              \<and> of_nat height * (600 / of_nat width) - 1 \<le> (of_nat h :: rat)))
     \<and> (width \<le> 600 \<longrightarrow>
           canvasSize rnd width height = (width, height)
           \<and> compressImage rnd file = Inr (''data:'' @ encoded file width height))"
proof (intro conjI impI)
  assume "600 < width"
  then obtain h where size: "canvasSize rnd width height = (600, h)"
    and le: "(of_nat h :: rat) \<le> of_nat height * (600 / of_nat width)"
    and ge: "of_nat height * (600 / of_nat width) - 1 \<le> (of_nat h :: rat)"
    using canvasSize_resize [OF assms(1,3,4)] by blast
  have "compressImage rnd file = Inr (''data:'' @ encoded file 600 h)"
    using compressImage_canvas [OF assms(2), of rnd] by (simp add: size)
  then show "\<exists>h. canvasSize rnd width height = (600, h)
      \<and> compressImage rnd file = Inr (''data:'' @ encoded file 600 h)
      \<and> (of_nat h :: rat) \<le> of_nat height * (600 / of_nat width)
      \<and> of_nat height * (600 / of_nat width) - 1 \<le> (of_nat h :: rat)"
    using size le ge by blast
next
  assume "width \<le> 600"
  then show "canvasSize rnd width height = (width, height)"
    using canvasSize_resize [OF assms(1,3,4)] by blast
next
  assume "width \<le> 600"
  then have size: "canvasSize rnd width height = (width, height)"
    using canvasSize_resize [OF assms(1,3,4)] by blast
  show "compressImage rnd file = Inr (''data:'' @ encoded file width height)"
    using compressImage_canvas [OF assms(2), of rnd] by (simp add: size)
qed

theorem compressImage_resize_witness:
  "roundsToNearest (\<lambda>x. x) \<and> decoded photo = Some (1200, 800)
   \<and> (1200::nat) < 2 ^ 24 \<and> (800::nat) < 2 ^ 24 \<and> (600::nat) < 1200
   \<and> (\<exists>h. canvasSize (\<lambda>x. x) 1200 800 = (600, h)
          \<and> compressImage (\<lambda>x. x) photo = Inr (''data:'' @ encoded photo 600 h)
          \<and> (of_nat h :: rat) \<le> of_nat 800 * (600 / of_nat 1200)
          \<and> of_nat 800 * (600 / of_nat 1200) - 1 \<le> (of_nat h :: rat))
   \<and> decoded thumbnail = Some (480, 360) \<and> (480::nat) \<le> 600
   \<and> compressImage (\<lambda>x. x) thumbnail = Inr (''data:'' @ encoded thumbnail 480 360)"
proof -
  have a: "(1200::nat) < 2 ^ 24" "(800::nat) < 2 ^ 24" "(480::nat) < 2 ^ 24" "(360::nat) < 2 ^ 24"
    by simp_all
  have p: "decoded photo = Some (1200, 800)" by (simp add: photo_def)
  have t: "decoded thumbnail = Some (480, 360)" by (simp add: thumbnail_def)
  have w: "(600::nat) < 1200" "(480::nat) \<le> 600" by simp_all
  show ?thesis
    using exact_rounding a p t w compressImage_resize [OF exact_rounding p a(1,2)]
      compressImage_resize [OF exact_rounding t a(3,4)]
    by blast
qed

subsection \<open>The progress page\<close>

lemma floor_half: fixes p :: rat shows "\<bar>of_int \<lfloor>p + 1 / 2\<rfloor> - p\<bar> \<le> 1 / 2"
  by linarith

lemma quizAccuracy_close:
  assumes r: "roundsToNearest rnd" and t: "0 < t" "t \<le> 2 ^ 53" and c: "c \<le> t"
    and p: "quizCorrectAnswers p = c" "quizTotalQuestions p = t"
  shows "\<exists>a. quizAccuracy rnd p = Finite a
     \<and> \<bar>a - 100 * of_nat c / of_nat t\<bar> \<le> 1 / 2 + 1 / 2 ^ 44"
proof -
  define u :: rat where "u = 1 / 2 ^ 53"
  define q0 :: rat where "q0 = of_nat c / of_nat t"
  define q where "q = rnd q0"
  define p0 where "p0 = q * 100"
  define y where "y = rnd p0"
  define x where "x = q0 * 100"
  have u0: "0 \<le> u" and u1: "u \<le> 1" and uhalf: "1 / 2 \<le> 1 - u"
    unfolding u_def using small_numbers by simp_all
  have acc: "quizAccuracy rnd p = Finite (of_int \<lfloor>y + 1 / 2\<rfloor>)"
    using t(1) p
    by (simp add: quizAccuracy_def jsDivide_def jsTimes_def mathRound_def y_def p0_def q_def q0_def)
  have tpos: "(0::rat) < of_nat t" using t(1) by simp
  have "(of_nat c :: rat) \<le> of_nat t" using c by (simp only: of_nat_le_iff)
  then have q0_le: "q0 \<le> 1" unfolding q0_def using tpos by (simp add: divide_le_eq_1)
  have q0_ge: "0 \<le> q0" unfolding q0_def by simp
  have x0: "0 \<le> x" and xB: "x \<le> 100" unfolding x_def using q0_ge q0_le by simp_all
  have near: "\<bar>y - x\<bar> \<le> 3 * (u * 100)"
  proof (cases "c = 0")
    case True
    then show ?thesis
      using rnd_zero [OF r] u0 by (simp add: y_def p0_def q_def q0_def x_def)
  next
    case False
    then have "1 \<le> c" by simp
    then have "(of_nat 1 :: rat) \<le> of_nat c" by (simp only: of_nat_le_iff)
    then have c1: "(1::rat) \<le> of_nat c" by simp
    have "(of_nat t :: rat) \<le> of_nat (2 ^ 53)" using t(2) by (simp only: of_nat_le_iff)
    then have tle: "(of_nat t :: rat) \<le> 2 ^ 53" by simp
    have "1 / 2 ^ 53 \<le> 1 / (of_nat t :: rat)"
      using tle tpos by (intro divide_left_mono) simp_all
    also have "\<dots> \<le> of_nat c / of_nat t"
      using c1 tpos by (intro divide_right_mono) simp_all
    finally have q0_lo: "1 / 2 ^ 53 \<le> q0" by (simp add: q0_def)
    have "(1::rat) / 2 ^ 1022 \<le> 1 / 2 ^ 53" "(1::rat) \<le> 2 ^ 1023" by simp_all
    then have q0_norm: "1 / 2 ^ 1022 \<le> q0" "q0 \<le> 2 ^ 1023"
      using q0_lo q0_le by linarith+
    have q_lo: "q0 * (1 - u) \<le> q" and q_hi: "q \<le> q0 * (1 + u)"
      unfolding q_def u_def using rnd_pos [OF r q0_norm] by simp_all
    have "(1 / 2 ^ 53) * (1 / 2) \<le> q0 * (1 - u)"
      using q0_lo uhalf by (intro mult_mono) simp_all
    then have q_ge: "(1 / 2 ^ 53) * (1 / 2) \<le> q" using q_lo by (rule order_trans)
    have "q0 * (1 + u) \<le> 1 * 2" using q0_le q0_ge u0 u1 by (intro mult_mono) simp_all
    then have q_le: "q \<le> 2" using q_hi by simp
    have "(1::rat) / 2 ^ 1022 \<le> (1 / 2 ^ 53) * (1 / 2) * 100" "(2::rat) * 100 \<le> 2 ^ 1023"
      by simp_all
    then have p0_norm: "1 / 2 ^ 1022 \<le> p0" "p0 \<le> 2 ^ 1023"
      unfolding p0_def using q_ge q_le by linarith+
    have y_lo: "p0 * (1 - u) \<le> y" and y_hi: "y \<le> p0 * (1 + u)"
      unfolding y_def u_def using rnd_pos [OF r p0_norm] by simp_all
    have nn: "0 \<le> 1 - u" using u1 by simp
    have a1: "q0 * (1 - u) * (100 * (1 - u)) \<le> q * (100 * (1 - u))"
      using q_lo nn by (intro mult_right_mono) simp_all
    have e1: "x * (1 - u) * (1 - u) = q0 * (1 - u) * (100 * (1 - u))"
      by (simp add: x_def algebra_simps)
    have e2: "p0 * (1 - u) = q * (100 * (1 - u))"
      by (simp add: p0_def algebra_simps)
    have lo: "x * (1 - u) * (1 - u) \<le> y"
      unfolding e1 using a1 y_lo [unfolded e2] by (rule order_trans)
    have a2: "q * (100 * (1 + u)) \<le> q0 * (1 + u) * (100 * (1 + u))"
      using q_hi u0 by (intro mult_right_mono) simp_all
    have e3: "x * (1 + u) * (1 + u) = q0 * (1 + u) * (100 * (1 + u))"
      by (simp add: x_def algebra_simps)
    have e4: "p0 * (1 + u) = q * (100 * (1 + u))"
      by (simp add: p0_def algebra_simps)
    have hi: "y \<le> x * (1 + u) * (1 + u)"
      unfolding e3 using y_hi [unfolded e4] a2 by (rule order_trans)
    show ?thesis using x0 xB u0 u1 lo hi by (rule two_roundings)
  qed
  have "3 * (u * 100) \<le> 1 / 2 ^ 44" unfolding u_def by simp
  then have "\<bar>of_int \<lfloor>y + 1 / 2\<rfloor> - x\<bar> \<le> 1 / 2 + 1 / 2 ^ 44"
    using near floor_half [of y] by linarith
  moreover have "x = 100 * of_nat c / of_nat t" by (simp add: x_def q0_def)
  ultimately show ?thesis using acc by simp
qed

text \<open>
  C10. The accuracy on the progress page never divides by zero: when
  \<open>quizTotalQuestions\<close> is 0 it is 0, and the division is in the other branch; otherwise
  it is \<open>Math.round\<close> of the quotient of the two counts times 100. In both cases it is a
  finite number, never the \<open>NaN\<close> or the infinity that a zero divisor gives. With
  arithmetic that rounds to nearest, and the correct answers not more than the questions,
  it is within one half (and the rounding error of the two operations) of the exact
  percentage.
\<close>

theorem quizAccuracy_defined:
  "(quizTotalQuestions p = 0 \<longrightarrow> quizAccuracy rnd p = Finite 0)
   \<and> (0 < quizTotalQuestions p \<longrightarrow>
        quizAccuracy rnd p =
          Finite (of_int \<lfloor>rnd (rnd (of_nat (quizCorrectAnswers p) / of_nat (quizTotalQuestions p))
                               * 100) + 1 / 2\<rfloor>))
   \<and> (\<exists>a. quizAccuracy rnd p = Finite a)
   \<and> (roundsToNearest rnd \<and> 0 < quizTotalQuestions p \<and> quizTotalQuestions p \<le> 2 ^ 53
        \<and> quizCorrectAnswers p \<le> quizTotalQuestions p \<longrightarrow>
        (\<exists>a. quizAccuracy rnd p = Finite a
           \<and> \<bar>a - 100 * of_nat (quizCorrectAnswers p) / of_nat (quizTotalQuestions p)\<bar>
               \<le> 1 / 2 + 1 / 2 ^ 44))"
  using quizAccuracy_close [of rnd "quizTotalQuestions p" "quizCorrectAnswers p" p]
  by (auto simp: quizAccuracy_def jsDivide_def jsTimes_def mathRound_def)

theorem quizAccuracy_defined_witness:
  "quizTotalQuestions initialProgress = 0 \<and> quizAccuracy (\<lambda>x. x) initialProgress = Finite 0
   \<and> roundsToNearest (\<lambda>x. x) \<and> 0 < quizTotalQuestions twoOfThree
   \<and> quizTotalQuestions twoOfThree \<le> 2 ^ 53
   \<and> quizCorrectAnswers twoOfThree \<le> quizTotalQuestions twoOfThree
   \<and> (\<exists>a. quizAccuracy (\<lambda>x. x) twoOfThree = Finite a
          \<and> \<bar>a - 100 * of_nat (quizCorrectAnswers twoOfThree)
                   / of_nat (quizTotalQuestions twoOfThree)\<bar> \<le> 1 / 2 + 1 / 2 ^ 44)"
proof -
  have z: "quizTotalQuestions initialProgress = 0" by (simp add: initialProgress_def)
  have t: "0 < quizTotalQuestions twoOfThree" "quizTotalQuestions twoOfThree \<le> 2 ^ 53"
    "quizCorrectAnswers twoOfThree \<le> quizTotalQuestions twoOfThree"
    by (simp_all add: twoOfThree_def)
  show ?thesis
    using z t exact_rounding quizAccuracy_defined [of initialProgress "\<lambda>x. x"]
      quizAccuracy_defined [of twoOfThree "\<lambda>x. x"]
    by blast
qed

end
